theory Spec2Isabelle
  imports Main "HOL-Library.Word" "HOL-Library.AList"
begin

unbundle bit_operations_syntax

section \<open>Bytes, big-endian integers and the checksum\<close>

text \<open>
  Go's \<open>[]byte\<close> is a list of 8-bit words and \<open>uint32\<close> a 32-bit word. A slice
  argument that the source compares with \<open>nil\<close> is a \<open>bytes option\<close>
  (\<open>None\<close> is \<open>nil\<close>, \<open>Some []\<close> the empty non-nil slice); where the source
  only takes the length or the contents of a slice, \<open>nil\<close> and the empty slice behave
  alike and the model uses the byte list.
\<close>

type_synonym byte = "8 word"
type_synonym uint32 = "32 word"
type_synonym bytes = "byte list"

definition bytes_of :: "bytes option \<Rightarrow> bytes" where
  "bytes_of b = (case b of None \<Rightarrow> [] | Some xs \<Rightarrow> xs)"

text \<open>\<open>binary.BigEndian.PutUint32\<close> / \<open>binary.Write(buf, binary.BigEndian, v)\<close>.\<close>

definition PutUint32 :: "uint32 \<Rightarrow> bytes" where
  "PutUint32 v = [ucast (drop_bit 24 v), ucast (drop_bit 16 v), ucast (drop_bit 8 v), ucast v]"

text \<open>\<open>binary.BigEndian.Uint32(b)\<close>: reads the first four bytes (every caller in the
  model passes at least four; a shorter argument is a panic that the callers rule out
  before the call).\<close>

fun Uint32 :: "bytes \<Rightarrow> uint32" where
  "Uint32 (a # b # c # d # _) =
     push_bit 24 (ucast a) OR push_bit 16 (ucast b) OR push_bit 8 (ucast c) OR ucast d"
| "Uint32 _ = 0"

text \<open>Go's \<open>s[lo:hi]\<close> for indices that the caller has checked to be in range.\<close>

definition slice :: "'a list \<Rightarrow> nat \<Rightarrow> nat \<Rightarrow> 'a list" where
  "slice xs lo hi = take (hi - lo) (drop lo xs)"

text \<open>\<open>crc32.ChecksumIEEE\<close>: the reflected CRC-32 with polynomial \<open>0xEDB88320\<close>,
  initial value and final xor \<open>0xFFFFFFFF\<close>, computed bit by bit.\<close>

definition crc_shift :: "uint32 \<Rightarrow> uint32" where
  "crc_shift c = (if bit c 0 then drop_bit 1 c XOR 0xEDB88320 else drop_bit 1 c)"

definition crc_byte :: "byte \<Rightarrow> uint32 \<Rightarrow> uint32" where
  "crc_byte b c =
     crc_shift (crc_shift (crc_shift (crc_shift (crc_shift (crc_shift (crc_shift (crc_shift
       (c XOR ucast b))))))))"

definition ChecksumIEEE :: "bytes \<Rightarrow> uint32" where
  "ChecksumIEEE data = fold crc_byte data 0xFFFFFFFF XOR 0xFFFFFFFF"

section \<open>Records and positions (package record)\<close>

text \<open>\<open>RecordType\<close> is a \<open>uint8\<close>; the decoder converts any byte, so the model keeps
  the byte and names the six constants.\<close>

type_synonym RecordType = byte

abbreviation RecordTypePut :: RecordType where "RecordTypePut \<equiv> 0"
abbreviation RecordTypeDelete :: RecordType where "RecordTypeDelete \<equiv> 1"
abbreviation RecordTypeBegin :: RecordType where "RecordTypeBegin \<equiv> 2"
abbreviation RecordTypeTxnPut :: RecordType where "RecordTypeTxnPut \<equiv> 3"
abbreviation RecordTypeTxnDelete :: RecordType where "RecordTypeTxnDelete \<equiv> 4"
abbreviation RecordTypeTxnCommit :: RecordType where "RecordTypeTxnCommit \<equiv> 5"

record Record =
  RecordType :: RecordType
  Key :: bytes
  Value :: bytes

record Pos =
  FileId :: uint32
  Offset :: uint32
  Length :: uint32

datatype error =
    ErrKeyNil
  | ErrKeyNotFound
  | ErrKeyHasDeleted
  | ErrReachLimit
  | ErrExceedEndRange
  | ErrFileNotFound uint32
  | ErrReadPos uint32 uint32 error
  | ErrOutOfFileRange
  | ErrIncompleteRead
  | ErrFileClosed
  | ErrDecodeAt uint32 error
  | ErrTooShort
  | ErrTooLarge
  | ErrIncomplete
  | ErrReadCrc
  | ErrCrcMismatch
  | ErrTxnIdMismatch uint32 uint32
  | ErrBatchTooLarge
  | ErrHintCorrupt
  | ErrLoadHint error
  | ErrReadWal uint32 error
  | ErrScan error
  | ErrMergeRead error
  | ErrMergeWrite error
  | ErrMerge error
  | ErrMergeDelete error
  | PanicSliceBounds
  | PanicNilMap
  | PanicMakeSlice
  | PanicNilDeref
  | FatalOutOfMemory

text \<open>
  A panic of the Go runtime (and a fatal error such as running out of memory) is not a
  returned error: the call does not return, and the panic unwinds through every caller,
  none of which recovers. In the model it is an \<open>Inl\<close> of one of the last five
  constructors, and every caller passes it on as it is: where the source wraps a
  returned error (\<open>fmt.Errorf\<close>) or turns it into another result, the model does so
  only for an error that is not a panic.
\<close>

definition is_panic :: "error \<Rightarrow> bool" where
  "is_panic e \<longleftrightarrow>
     e = PanicSliceBounds \<or> e = PanicNilMap \<or> e = PanicMakeSlice \<or> e = PanicNilDeref
     \<or> e = FatalOutOfMemory"

definition wrap_err :: "(error \<Rightarrow> error) \<Rightarrow> error \<Rightarrow> error" where
  "wrap_err f e = (if is_panic e then e else f e)"

text \<open>\<open>NewRecord\<close>, \<open>NewTxnRecord\<close>, \<open>NewTxnCommit\<close>, \<open>NewTxnBegin\<close>: a
  \<open>nil\<close> value makes a delete record.\<close>

definition newRecord :: "bytes \<Rightarrow> bytes \<Rightarrow> RecordType \<Rightarrow> Record" where
  "newRecord key val recordType = \<lparr>RecordType = recordType, Key = key, Value = val\<rparr>"

definition NewRecord :: "bytes \<Rightarrow> bytes option \<Rightarrow> Record" where
  "NewRecord key val =
     (case val of None \<Rightarrow> newRecord key [] RecordTypeDelete
      | Some v \<Rightarrow> newRecord key v RecordTypePut)"

definition NewTxnRecord :: "bytes \<Rightarrow> bytes option \<Rightarrow> Record" where
  "NewTxnRecord key val =
     (case val of None \<Rightarrow> newRecord key [] RecordTypeTxnDelete
      | Some v \<Rightarrow> newRecord key v RecordTypeTxnPut)"

definition NewTxnCommit :: "bytes \<Rightarrow> Record" where
  "NewTxnCommit key = newRecord key [] RecordTypeTxnCommit"

definition NewTxnBegin :: "bytes \<Rightarrow> Record" where
  "NewTxnBegin key = newRecord key [] RecordTypeBegin"

text \<open>\<open>utils.EncodeTxnId\<close> and \<open>utils.DecodeTxnId\<close>. \<open>data[4:]\<close> panics when the
  slice is shorter than four bytes.\<close>

definition EncodeTxnId :: "uint32 \<Rightarrow> bytes \<Rightarrow> bytes" where
  "EncodeTxnId txnId key = PutUint32 txnId @ key"

definition DecodeTxnId :: "bytes \<Rightarrow> error + (uint32 \<times> bytes)" where
  "DecodeTxnId data =
     (if length data < 4 then Inl PanicSliceBounds else Inr (Uint32 data, drop 4 data))"

text \<open>\<open>Record.Encode\<close>: type, key length, value length, key, value, then the CRC of
  everything before it. Writes to a \<open>bytes.Buffer\<close> do not fail, so the error result
  of the source is always \<open>nil\<close> and the model returns the bytes.\<close>

definition header :: "Record \<Rightarrow> bytes" where
  "header r = RecordType r # PutUint32 (of_nat (length (Key r)))
                @ PutUint32 (of_nat (length (Value r)))"

definition Encode :: "Record \<Rightarrow> bytes" where
  "Encode r = (let buf = header r @ Key r @ Value r in buf @ PutUint32 (ChecksumIEEE buf))"

text \<open>\<open>DecodeRecord\<close>, check by check. For the two transactional data types the
  four-byte transaction id is cut off the key.\<close>

definition DecodeRecord :: "bytes \<Rightarrow> error + Record" where
  "DecodeRecord data =
     (if length data < 9 then Inl ErrTooShort
      else
        let recordType = data ! 0;
            keyLength = Uint32 (slice data 1 5);
            valueLength = Uint32 (slice data 5 9)
        in if keyLength > 10 * 1024 * 1024 \<or> valueLength > 100 * 1024 * 1024
           then Inl ErrTooLarge
           else
             let expectedLength = 9 + keyLength + valueLength + 4
             in if (of_nat (length data) :: uint32) < expectedLength then Inl ErrIncomplete
                else
                  let key = slice data 9 (unat (9 + keyLength));
                      val = slice data (unat (9 + keyLength))
                              (unat (9 + keyLength + valueLength));
                      crcData = drop (unat (9 + keyLength + valueLength)) data
                  in if length crcData < 4 then Inl ErrReadCrc
                     else
                       let storedCrc = Uint32 crcData;
                           actualCrc = ChecksumIEEE
                             (take (unat (9 + keyLength + valueLength)) data)
                       in if storedCrc \<noteq> actualCrc then Inl ErrCrcMismatch
                          else if recordType = RecordTypeTxnPut
                                  \<or> recordType = RecordTypeTxnDelete
                          then (case DecodeTxnId key of
                                  Inl e \<Rightarrow> Inl e
                                | Inr (_, key') \<Rightarrow>
                                    Inr \<lparr>RecordType = recordType, Key = key', Value = val\<rparr>)
                          else Inr \<lparr>RecordType = recordType, Key = key, Value = val\<rparr>)"

section \<open>Key order (package utils) and the in-memory index (package index)\<close>

text \<open>\<open>bytes.Compare\<close>: lexicographic comparison of byte strings as unsigned bytes,
  with result \<open>-1\<close>, \<open>0\<close> or \<open>1\<close>.\<close>

fun bytes_Compare :: "bytes \<Rightarrow> bytes \<Rightarrow> int" where
  "bytes_Compare [] [] = 0"
| "bytes_Compare [] (y # ys) = -1"
| "bytes_Compare (x # xs) [] = 1"
| "bytes_Compare (x # xs) (y # ys) =
     (if x < y then -1 else if y < x then 1 else bytes_Compare xs ys)"

definition KeyComparator_Compare :: "bytes \<Rightarrow> bytes \<Rightarrow> int" where
  "KeyComparator_Compare a b =
     (if length a \<noteq> length b then (if length a < length b then -1 else 1)
      else bytes_Compare a b)"

definition KeyComparator_Equal :: "bytes \<Rightarrow> bytes \<Rightarrow> bool" where
  "KeyComparator_Equal a b = (length a = length b \<and> a = b)"

definition KeyComparator_Less :: "bytes \<Rightarrow> bytes \<Rightarrow> bool" where
  "KeyComparator_Less a b =
     (if length a \<noteq> length b then length a < length b else bytes_Compare a b < 0)"

definition KeyComparator_Greater :: "bytes \<Rightarrow> bytes \<Rightarrow> bool" where
  "KeyComparator_Greater a b =
     (if length a \<noteq> length b then length a > length b else bytes_Compare a b > 0)"

definition KeyComparator_LessOrEqual :: "bytes \<Rightarrow> bytes \<Rightarrow> bool" where
  "KeyComparator_LessOrEqual a b = (KeyComparator_Less a b \<or> KeyComparator_Equal a b)"

definition KeyComparator_GreaterOrEqual :: "bytes \<Rightarrow> bytes \<Rightarrow> bool" where
  "KeyComparator_GreaterOrEqual a b = (KeyComparator_Greater a b \<or> KeyComparator_Equal a b)"

definition KeyComparator_InRange :: "bytes \<Rightarrow> bytes \<Rightarrow> bytes \<Rightarrow> bool" where
  "KeyComparator_InRange key start end' =
     (KeyComparator_GreaterOrEqual key start \<and> KeyComparator_LessOrEqual key end')"

text \<open>\<open>item.Less\<close> of the B-tree index: the same order, written out again in the
  source.\<close>

definition item_Less :: "bytes \<Rightarrow> bytes \<Rightarrow> bool" where
  "item_Less k other =
     (if length k \<noteq> length other then length k < length other
      else bytes_Compare k other < 0)"

text \<open>
  The index wraps the external \<open>google/btree\<close> ordered set. Its contract is modelled by
  the list of items in ascending \<open>item_Less\<close> order: \<open>ReplaceOrInsert\<close> puts an item
  at its place in the order and replaces an item that is neither less nor greater,
  \<open>Get\<close> returns the item with the probe's key, \<open>Delete\<close> removes it, \<open>Ascend\<close>
  visits the list from the front. The methods of \<open>BTreeIndex\<close> always return a
  \<open>nil\<close> error, so the model returns the new index.
\<close>

type_synonym memTable = "(bytes \<times> Pos) list"

fun ReplaceOrInsert :: "bytes \<Rightarrow> Pos \<Rightarrow> memTable \<Rightarrow> memTable" where
  "ReplaceOrInsert k p [] = [(k, p)]"
| "ReplaceOrInsert k p ((k', p') # t) =
     (if item_Less k k' then (k, p) # (k', p') # t
      else if item_Less k' k then (k', p') # ReplaceOrInsert k p t
      else (k, p) # t)"

definition BTreeIndex_Put :: "bytes \<Rightarrow> Pos \<Rightarrow> memTable \<Rightarrow> memTable" where
  "BTreeIndex_Put key pos t = ReplaceOrInsert key pos t"

definition BTreeIndex_Get :: "bytes \<Rightarrow> memTable \<Rightarrow> Pos option" where
  "BTreeIndex_Get key t = map_of t key"

definition BTreeIndex_Delete :: "bytes \<Rightarrow> memTable \<Rightarrow> memTable" where
  "BTreeIndex_Delete key t = filter (\<lambda>(k, p). k \<noteq> key) t"

text \<open>\<open>ForeachUnSafe\<close> (and \<open>Foreach\<close>, which differs by a lock only): the callback is
  run on the items in ascending order and a non-nil error stops the traversal. The
  callback of the source mutates captured variables; here it passes an accumulator.\<close>

fun ForeachUnSafe ::
  "(bytes \<Rightarrow> Pos \<Rightarrow> 'a \<Rightarrow> error option \<times> 'a) \<Rightarrow> memTable \<Rightarrow> 'a \<Rightarrow> error option \<times> 'a" where
  "ForeachUnSafe fn [] acc = (None, acc)"
| "ForeachUnSafe fn ((k, p) # t) acc =
     (case fn k p acc of
        (Some err, acc') \<Rightarrow> (Some err, acc')
      | (None, acc') \<Rightarrow> ForeachUnSafe fn t acc')"

section \<open>The data directory and segment files (package wal)\<close>

text \<open>
  The data directory: the segment files \<open>wal-<id>.log\<close> by their id, the hint file
  \<open>keys.hint\<close> if it exists, and whether a process holds the advisory lock on
  \<open>bitcask.lock\<close>. File-system calls are modelled as succeeding, except on a file that
  is not there any more. A write is visible to every later read, so \<open>Sync\<close> and the
  \<open>AutoSync\<close> option have no effect here; the \<open>Debug\<close> option only prints, and the
  mutexes are left out since the calls are made one after the other.
\<close>

record Dir =
  wal_files :: "(uint32 \<times> bytes) list"
  hint_file :: "bytes option"
  lock_held :: bool

record Config =
  MaxFileSize :: uint32
  LoadHint :: bool
  BatchSize :: int

text \<open>A \<open>Wal\<close> is a handle on the file of its id, opened for appending, and the write
  offset that the handle tracks by itself.\<close>

record Wal =
  wal_fileId :: uint32
  wal_offset :: uint32

definition NewWal :: "uint32 \<Rightarrow> Dir \<Rightarrow> Wal \<times> Dir" where
  "NewWal fid d =
     (\<lparr>wal_fileId = fid, wal_offset = 0\<rparr>,
      case map_of (wal_files d) fid of
        None \<Rightarrow> d\<lparr>wal_files := AList.update fid [] (wal_files d)\<rparr>
      | Some _ \<Rightarrow> d)"

definition Wal_write :: "Record \<Rightarrow> Wal \<Rightarrow> Dir \<Rightarrow> error + (Pos \<times> Wal \<times> Dir)" where
  "Wal_write rec w d =
     (case map_of (wal_files d) (wal_fileId w) of
        None \<Rightarrow> Inl ErrFileClosed
      | Some content \<Rightarrow>
          let preOffset = wal_offset w;
              encoded = Encode rec;
              len = (of_nat (length encoded) :: uint32)
          in Inr (\<lparr>FileId = wal_fileId w, Offset = preOffset, Length = len\<rparr>,
                  w\<lparr>wal_offset := wal_offset w + len\<rparr>,
                  d\<lparr>wal_files := AList.update (wal_fileId w) (content @ encoded)
                                    (wal_files d)\<rparr>))"

definition Wal_Write :: "bytes \<Rightarrow> bytes option \<Rightarrow> Wal \<Rightarrow> Dir \<Rightarrow> error + (Pos \<times> Wal \<times> Dir)" where
  "Wal_Write key val w d = Wal_write (NewRecord key val) w d"

definition WriteTxn :: "bytes \<Rightarrow> bytes option \<Rightarrow> Wal \<Rightarrow> Dir \<Rightarrow> error + (Pos \<times> Wal \<times> Dir)" where
  "WriteTxn key val w d = Wal_write (NewTxnRecord key val) w d"

definition WriteTxnCommit :: "bytes \<Rightarrow> Wal \<Rightarrow> Dir \<Rightarrow> error + (Pos \<times> Wal \<times> Dir)" where
  "WriteTxnCommit key w d = Wal_write (NewTxnCommit key) w d"

definition WriteTxnBegin :: "bytes \<Rightarrow> Wal \<Rightarrow> Dir \<Rightarrow> error + (Pos \<times> Wal \<times> Dir)" where
  "WriteTxnBegin key w d = Wal_write (NewTxnBegin key) w d"

text \<open>\<open>Wal.ReadPos\<close>: the range check is done on 64-bit integers, so it does not
  wrap; the read then returns exactly \<open>Length\<close> bytes.\<close>

definition ReadPos :: "Pos \<Rightarrow> Wal \<Rightarrow> Dir \<Rightarrow> error + Record" where
  "ReadPos pos w d =
     (case map_of (wal_files d) (wal_fileId w) of
        None \<Rightarrow> Inl ErrFileClosed
      | Some content \<Rightarrow>
          let fileSize = length content;
              endOffset = unat (Offset pos) + unat (Length pos)
          in if unat (Offset pos) \<ge> fileSize \<or> endOffset > fileSize
             then Inl ErrOutOfFileRange
             else
               let buf = slice content (unat (Offset pos)) endOffset
               in (case DecodeRecord buf of
                     Inl e \<Rightarrow> Inl (wrap_err (ErrDecodeAt (Offset pos)) e)
                   | Inr rec \<Rightarrow> Inr rec))"

definition Wal_Size :: "Wal \<Rightarrow> uint32" where
  "Wal_Size w = wal_offset w"

definition UpdateOffset :: "Wal \<Rightarrow> Dir \<Rightarrow> Wal" where
  "UpdateOffset w d =
     (case map_of (wal_files d) (wal_fileId w) of
        None \<Rightarrow> w
      | Some content \<Rightarrow> w\<lparr>wal_offset := of_nat (length content)\<rparr>)"

definition Wal_Delete :: "Wal \<Rightarrow> Dir \<Rightarrow> error + Dir" where
  "Wal_Delete w d =
     (case map_of (wal_files d) (wal_fileId w) of
        None \<Rightarrow> Inl ErrFileClosed
      | Some _ \<Rightarrow> Inr (d\<lparr>wal_files := AList.delete (wal_fileId w) (wal_files d)\<rparr>))"

section \<open>Replay of a segment (\<open>Wal.ReadAll\<close>)\<close>

text \<open>The variables that the replay closure \<open>updatedFunc\<close> captures: the buffered
  records of open transactions, the transaction flag and current id, and the two objects
  it updates, the index and the engine's transaction id.\<close>

record replay =
  batchData :: "uint32 \<Rightarrow> (Record \<times> Pos) list"
  txnFlag :: bool
  curTxnId :: uint32
  r_memTable :: memTable
  dbTxnId :: uint32

text \<open>The loop over the buffered records of a committed transaction.\<close>

fun applyTxnData :: "(Record \<times> Pos) list \<Rightarrow> memTable \<Rightarrow> memTable" where
  "applyTxnData [] t = t"
| "applyTxnData ((rec, pos) # rs) t =
     applyTxnData rs
       (if RecordType rec = RecordTypeTxnPut then BTreeIndex_Put (Key rec) pos t
        else if RecordType rec = RecordTypeTxnDelete then BTreeIndex_Delete (Key rec) t
        else t)"

definition updatedFunc :: "Record \<Rightarrow> Pos \<Rightarrow> replay \<Rightarrow> error + replay" where
  "updatedFunc rec pos st =
     (if RecordType rec = RecordTypeBegin then
        (case DecodeTxnId (Key rec) of
           Inl e \<Rightarrow> Inl e
         | Inr (tid, _) \<Rightarrow> Inr (st\<lparr>txnFlag := True, curTxnId := tid\<rparr>))
      else if txnFlag st then
        (if RecordType rec = RecordTypeTxnPut \<or> RecordType rec = RecordTypeTxnDelete then
           (case DecodeTxnId (Key rec) of
              Inl e \<Rightarrow> Inl e
            | Inr (txnId, decKey) \<Rightarrow>
                if txnId \<noteq> curTxnId st then Inl (ErrTxnIdMismatch txnId (curTxnId st))
                else Inr (st\<lparr>batchData := (batchData st)
                            (txnId := batchData st txnId @ [(rec\<lparr>Key := decKey\<rparr>, pos)])\<rparr>))
         else if RecordType rec = RecordTypeTxnCommit then
           (case DecodeTxnId (Key rec) of
              Inl e \<Rightarrow> Inl e
            | Inr (txnId, _) \<Rightarrow>
                if txnId \<noteq> curTxnId st then Inl (ErrTxnIdMismatch txnId (curTxnId st))
                else Inr (st\<lparr>r_memTable := applyTxnData (batchData st txnId) (r_memTable st),
                             batchData := (batchData st)(txnId := []),
                             dbTxnId := curTxnId st,
                             curTxnId := 0,
                             txnFlag := False\<rparr>))
         else Inr st)
      else
        (if RecordType rec = RecordTypeDelete
         then Inr (st\<lparr>r_memTable := BTreeIndex_Delete (Key rec) (r_memTable st)\<rparr>)
         else if RecordType rec = RecordTypePut
         then Inr (st\<lparr>r_memTable := BTreeIndex_Put (Key rec) pos (r_memTable st)\<rparr>)
         else Inr st))"

text \<open>Go's \<open>buffer[lo:hi]\<close> with its run-time check: the indices are the \<open>uint32\<close>
  values of the source, which can have wrapped.\<close>

definition go_slice :: "bytes \<Rightarrow> uint32 \<Rightarrow> uint32 \<Rightarrow> error + bytes" where
  "go_slice buffer lo hi =
     (if lo \<le> hi \<and> unat hi \<le> length buffer
      then Inr (slice buffer (unat lo) (unat hi)) else Inl PanicSliceBounds)"

text \<open>
  The record loop of \<open>ReadAll\<close>, with \<open>n = len(buffer)\<close> converted to \<open>uint32\<close> as
  the source does. The three \<open>break\<close>s end the loop with what has been applied; a CRC
  mismatch only prints a warning, so the comparison has no branch here. The result is
  the final offset and the state of the closure.
\<close>

function readLoop :: "uint32 \<Rightarrow> bytes \<Rightarrow> uint32 \<Rightarrow> replay \<Rightarrow> error + (uint32 \<times> replay)" where
  "readLoop fid buffer offset st =
     (let n = (of_nat (length buffer) :: uint32) in
      if \<not> offset < n then Inr (offset, st)
      else if offset + 9 > n then Inr (offset, st)
      else
        case go_slice buffer (offset + 1) (offset + 5) of Inl e \<Rightarrow> Inl e | Inr kl \<Rightarrow>
        case go_slice buffer (offset + 5) (offset + 9) of Inl e \<Rightarrow> Inl e | Inr vl \<Rightarrow>
        let recordType = buffer ! unat offset;
            keyLength = Uint32 kl;
            valueLength = Uint32 vl
        in if keyLength > 10 * 1024 * 1024 \<or> valueLength > 100 * 1024 * 1024
           then Inr (offset, st)
           else
             let recordLength = 9 + keyLength + valueLength + 4
             in if offset + recordLength > n then Inr (offset, st)
                else
                  case go_slice buffer (offset + 9) (offset + 9 + keyLength) of
                    Inl e \<Rightarrow> Inl e | Inr key \<Rightarrow>
                  case go_slice buffer (offset + 9 + keyLength)
                         (offset + 9 + keyLength + valueLength) of
                    Inl e \<Rightarrow> Inl e | Inr val \<Rightarrow>
                  case go_slice buffer (offset + 9 + keyLength + valueLength)
                         (offset + recordLength) of
                    Inl e \<Rightarrow> Inl e | Inr crc \<Rightarrow>
                  case updatedFunc \<lparr>RecordType = recordType, Key = key, Value = val\<rparr>
                         \<lparr>FileId = fid, Offset = offset, Length = recordLength\<rparr> st of
                    Inl e \<Rightarrow> Inl e
                  | Inr st' \<Rightarrow> readLoop fid buffer (offset + recordLength) st')"
  by pat_completeness auto
termination
proof (relation "measure (\<lambda>(fid, buffer, offset, st). 2 ^ 32 - unat offset)", goal_cases)
  case 1
  show ?case by simp
next
  case (2 fid buffer offset st n kl vl recordType keyLength valueLength recordLength
          key val crc st')
  have lt: "offset < n" using 2 by simp
  have s1: "offset + 1 \<le> offset + 5" using 2 by (simp add: go_slice_def split: if_splits)
  have s2: "offset + 5 \<le> offset + 9" using 2 by (simp add: go_slice_def split: if_splits)
  have s3: "offset + 9 \<le> offset + 9 + keyLength"
    using 2 by (simp add: go_slice_def split: if_splits)
  have s4: "offset + 9 + keyLength \<le> offset + 9 + keyLength + valueLength"
    using 2 by (simp add: go_slice_def split: if_splits)
  have s5: "offset + 9 + keyLength + valueLength \<le> offset + recordLength"
    using 2 by (simp add: go_slice_def split: if_splits)
  have "unat offset < unat n" using lt by (simp add: word_less_nat_alt)
  then have "unat offset + 1 < 2 ^ 32"
    using unsigned_less [of n, where 'a = nat] by simp
  then have "unat (offset + 1) = unat offset + 1"
    by (simp add: unat_word_ariths)
  moreover have "unat (offset + 1) \<le> unat (offset + recordLength)"
    using s1 s2 s3 s4 s5 by (simp add: word_le_nat_alt)
  ultimately have "unat offset < unat (offset + recordLength)" by simp
  moreover have "unat (offset + recordLength) < 2 ^ 32"
    using unsigned_less [of "offset + recordLength", where 'a = nat] by simp
  ultimately show ?case by simp
qed

definition ReadAll :: "Wal \<Rightarrow> Dir \<Rightarrow> memTable \<Rightarrow> uint32 \<Rightarrow> error + (Wal \<times> memTable \<times> uint32)" where
  "ReadAll w d mt txn =
     (case map_of (wal_files d) (wal_fileId w) of
        None \<Rightarrow> Inl ErrFileClosed
      | Some buffer \<Rightarrow>
          (case readLoop (wal_fileId w) buffer 0
                  \<lparr>batchData = (\<lambda>_. []), txnFlag = False, curTxnId = 0,
                   r_memTable = mt, dbTxnId = txn\<rparr> of
             Inl e \<Rightarrow> Inl e
           | Inr (offset, st) \<Rightarrow> Inr (w\<lparr>wal_offset := offset\<rparr>, r_memTable st, dbTxnId st)))"

section \<open>The engine (\<open>bitcask.go\<close>)\<close>

text \<open>\<open>flock.New\<close> makes a handle that does not hold the lock; the handle records
  whether it holds it.\<close>

record Flock =
  locked :: bool

definition flock_New :: Flock where
  "flock_New = \<lparr>locked = False\<rparr>"

record Bitcask =
  conf :: Config
  activeWal :: Wal
  oldWal :: "uint32 \<Rightarrow> Wal option"
  memTable :: memTable
  fileId :: uint32
  fileIds :: "uint32 list"
  txnId :: uint32
  flock :: Flock
  dir :: Dir

definition mustRotate :: "Bitcask \<Rightarrow> Bitcask" where
  "mustRotate bc =
     (let oldFileId = fileId bc;
          (w, d) = NewWal (fileId bc + 1) (dir bc)
      in bc\<lparr>oldWal := (oldWal bc)(oldFileId \<mapsto> activeWal bc),
             fileIds := fileIds bc @ [fileId bc],
             fileId := fileId bc + 1,
             activeWal := w,
             dir := d\<rparr>)"

definition tryRotate :: "Bitcask \<Rightarrow> Bitcask" where
  "tryRotate bc =
     (if Wal_Size (activeWal bc) < MaxFileSize (conf bc) then bc else mustRotate bc)"

text \<open>The engine's operations change the engine in place and return an error; the
  model returns the error (\<open>None\<close> is \<open>nil\<close>) with the engine as the call leaves it.\<close>

definition Put :: "bytes option \<Rightarrow> bytes option \<Rightarrow> Bitcask \<Rightarrow> error option \<times> Bitcask" where
  "Put key val bc =
     (case key of
        None \<Rightarrow> (Some ErrKeyNil, bc)
      | Some k \<Rightarrow>
          let bc1 = tryRotate bc
          in (case Wal_Write k val (activeWal bc1) (dir bc1) of
                Inl e \<Rightarrow> (Some e, bc1)
              | Inr (pos, w, d) \<Rightarrow>
                  (None, bc1\<lparr>activeWal := w, dir := d,
                            memTable := BTreeIndex_Put k pos (memTable bc1)\<rparr>)))"

text \<open>The segment that a position names: the active one for the current file id, else
  the sealed one of that id.\<close>

definition targetWal :: "Bitcask \<Rightarrow> Pos \<Rightarrow> error + Wal" where
  "targetWal bc pos =
     (if FileId pos = fileId bc then Inr (activeWal bc)
      else (case oldWal bc (FileId pos) of
              Some w \<Rightarrow> Inr w
            | None \<Rightarrow> Inl (ErrFileNotFound (FileId pos))))"

text \<open>\<open>Bitcask.get\<close> returns \<open>(nil, false, err)\<close> or \<open>(rec.Value, true, nil)\<close>:
  \<open>Inl err\<close> and \<open>Inr value\<close>.\<close>

definition get :: "bytes option \<Rightarrow> Bitcask \<Rightarrow> error + bytes" where
  "get key bc =
     (case key of
        None \<Rightarrow> Inl ErrKeyNil
      | Some k \<Rightarrow>
          (case BTreeIndex_Get k (memTable bc) of
             None \<Rightarrow> Inl ErrKeyNotFound
           | Some pos \<Rightarrow>
               (case targetWal bc pos of
                  Inl e \<Rightarrow> Inl e
                | Inr w \<Rightarrow>
                    (case ReadPos pos w (dir bc) of
                       Inl e \<Rightarrow> Inl (wrap_err (ErrReadPos (FileId pos) (Offset pos)) e)
                     | Inr rec \<Rightarrow>
                         if RecordType rec = RecordTypeDelete then Inl ErrKeyHasDeleted
                         else Inr (Value rec)))))"

text \<open>\<open>Bitcask.Get\<close> has no error result: both branches of its test on a returned
  error give \<open>(nil, false)\<close>. It does not recover, so a panic under \<open>get\<close> is the
  outcome of \<open>Get\<close> too: \<open>Inl\<close> here is always a panic.\<close>

definition Get :: "bytes option \<Rightarrow> Bitcask \<Rightarrow> error + (bytes option \<times> bool)" where
  "Get key bc =
     (case get key bc of
        Inl err \<Rightarrow>
          if is_panic err then Inl err
          else if err = ErrKeyNotFound \<or> err = ErrKeyHasDeleted then Inr (None, False)
          else Inr (None, False)
      | Inr v \<Rightarrow> Inr (Some v, True))"

definition Delete :: "bytes option \<Rightarrow> Bitcask \<Rightarrow> error option \<times> Bitcask" where
  "Delete key bc =
     (case BTreeIndex_Get (bytes_of key) (memTable bc) of
        None \<Rightarrow> (None, bc)
      | Some _ \<Rightarrow>
          let bc1 = tryRotate bc
          in (case Wal_Write (bytes_of key) None (activeWal bc1) (dir bc1) of
                Inl e \<Rightarrow> (Some e, bc1)
              | Inr (_, w, d) \<Rightarrow>
                  (None, bc1\<lparr>activeWal := w, dir := d,
                            memTable := BTreeIndex_Delete (bytes_of key) (memTable bc1)\<rparr>)))"

text \<open>\<open>Bitcask.Scan\<close>: the callback gets the key and value of the record read at each
  index entry.\<close>

definition Scan ::
  "(bytes \<Rightarrow> bytes \<Rightarrow> 'a \<Rightarrow> error option \<times> 'a) \<Rightarrow> Bitcask \<Rightarrow> 'a \<Rightarrow> error option \<times> 'a" where
  "Scan fn bc acc =
     ForeachUnSafe
       (\<lambda>key pos acc.
          case targetWal bc pos of
            Inl e \<Rightarrow> (Some e, acc)
          | Inr w \<Rightarrow>
              (case ReadPos pos w (dir bc) of
                 Inl e \<Rightarrow> (Some (wrap_err ErrScan e), acc)
               | Inr rec \<Rightarrow> fn (Key rec) (Value rec) acc))
       (memTable bc) acc"

text \<open>\<open>sort.Slice\<close> with the comparison of the source, as an insertion sort: the keys
  sorted are distinct map keys, so every sort gives the same result.\<close>

definition scan_less :: "bytes \<Rightarrow> bytes \<Rightarrow> bool" where
  "scan_less a b =
     (if length a \<noteq> length b then length a < length b else bytes_Compare a b < 0)"

fun sort_insert :: "bytes \<Rightarrow> bytes list \<Rightarrow> bytes list" where
  "sort_insert k [] = [k]"
| "sort_insert k (x # xs) = (if scan_less x k then x # sort_insert k xs else k # x # xs)"

definition sort_Slice :: "bytes list \<Rightarrow> bytes list" where
  "sort_Slice ks = foldr sort_insert ks []"

text \<open>The callback of \<open>ScanRangeOptimized\<close> on its captured \<open>keys\<close> and \<open>values\<close>.\<close>

definition scanCollect ::
  "bytes \<Rightarrow> bytes \<Rightarrow> bytes \<Rightarrow> bytes \<Rightarrow> bytes list \<times> (bytes \<times> bytes) list
     \<Rightarrow> error option \<times> bytes list \<times> (bytes \<times> bytes) list" where
  "scanCollect start end' key val acc =
     (case acc of (keys, vals) \<Rightarrow>
        if KeyComparator_InRange key start end'
        then (None, keys @ [key], AList.update key val vals)
        else if KeyComparator_Greater key end' then (Some ErrExceedEndRange, keys, vals)
        else (None, keys, vals))"

text \<open>The result loop: stop at \<open>limit\<close> results when \<open>limit > 0\<close>. A key is always
  in \<open>values\<close>; Go reads a missing one as \<open>nil\<close>.\<close>

fun collectResults ::
  "int \<Rightarrow> (bytes \<times> bytes) list \<Rightarrow> bytes list \<Rightarrow> int \<Rightarrow> (bytes \<times> bytes) list" where
  "collectResults limit vals [] count = []"
| "collectResults limit vals (key # ks) count =
     (if limit > 0 \<and> count \<ge> limit then []
      else (key, bytes_of (map_of vals key)) # collectResults limit vals ks (count + 1))"

text \<open>
  \<open>make([]*ScanRangeResult, 0, limit)\<close>, on a 64-bit platform: the runtime panics when
  the capacity is negative or when its slots of 8 bytes exceed the \<open>2^48\<close> bytes that it
  can address (\<open>limit > 2^45\<close>); otherwise it allocates the slots at once, and the
  process ends with a fatal error when that memory is not there. \<open>heap\<close> is the number
  of slots that the runtime can get at the time of the call, a parameter of the model.
  \<open>limit\<close> is an \<open>int\<close> of 64 bits; the model only compares it.
\<close>

definition make_results :: "int \<Rightarrow> nat \<Rightarrow> error option" where
  "make_results limit heap =
     (if limit < 0 \<or> limit > 35184372088832 then Some PanicMakeSlice
      else if nat limit > heap then Some FatalOutOfMemory
      else None)"

definition ScanRangeOptimized ::
  "bytes option \<Rightarrow> bytes option \<Rightarrow> int \<Rightarrow> nat \<Rightarrow> Bitcask \<Rightarrow> error + (bytes \<times> bytes) list" where
  "ScanRangeOptimized start end' limit heap bc =
     (case make_results limit heap of
        Some e \<Rightarrow> Inl e
      | None \<Rightarrow>
         (case Scan (scanCollect (bytes_of start) (bytes_of end')) bc ([], []) of
            (Some err, keys, vals) \<Rightarrow>
              if err \<noteq> ErrReachLimit \<and> err \<noteq> ErrExceedEndRange then Inl err
              else Inr (collectResults limit vals (sort_Slice keys) 0)
          | (None, keys, vals) \<Rightarrow> Inr (collectResults limit vals (sort_Slice keys) 0)))"

definition ScanRange ::
  "bytes option \<Rightarrow> bytes option \<Rightarrow> nat \<Rightarrow> Bitcask \<Rightarrow> error + (bytes \<times> bytes) list" where
  "ScanRange start end' heap bc = ScanRangeOptimized start end' 0 heap bc"

definition ScanRangeLimit ::
  "bytes option \<Rightarrow> bytes option \<Rightarrow> int \<Rightarrow> nat \<Rightarrow> Bitcask \<Rightarrow> error + (bytes \<times> bytes) list" where
  "ScanRangeLimit start end' limit heap bc = ScanRangeOptimized start end' limit heap bc"
section \<open>Opening a data directory\<close>

text \<open>The engine under construction in \<open>NewBitcask\<close>: the fields that \<open>LoadHint\<close>
  and \<open>loadWalFiles\<close> fill, with \<open>activeWal\<close> still \<open>nil\<close> until a segment is
  found.\<close>

record Opening =
  o_memTable :: memTable
  o_txnId :: uint32
  o_fileId :: uint32
  o_fileIds :: "uint32 list"
  o_oldWal :: "uint32 \<Rightarrow> Wal option"
  o_activeWal :: "Wal option"
  o_dir :: Dir

text \<open>The entry loop of \<open>Bitcask.LoadHint\<close>: the end of the file before a key length
  ends the loop; any other short read is an error.\<close>

function hintEntries :: "bytes \<Rightarrow> memTable \<Rightarrow> uint32 \<Rightarrow> error + (memTable \<times> uint32)" where
  "hintEntries data mt fid =
     (if data = [] then Inr (mt, fid)
      else if length data < 4 then Inl ErrHintCorrupt
      else
        let keyLength = Uint32 data; d1 = drop 4 data
        in if length d1 < 4 then Inl ErrHintCorrupt
           else
             let fileId = Uint32 d1; d2 = drop 4 d1
             in if length d2 < 4 then Inl ErrHintCorrupt
                else
                  let offset = Uint32 d2; d3 = drop 4 d2
                  in if length d3 < 4 then Inl ErrHintCorrupt
                     else
                       let len = Uint32 d3; d4 = drop 4 d3
                       in if length d4 < unat keyLength then Inl ErrHintCorrupt
                          else
                            let key = take (unat keyLength) d4;
                                pos = \<lparr>FileId = fileId, Offset = offset, Length = len\<rparr>
                            in hintEntries (drop (unat keyLength) d4)
                                 (BTreeIndex_Put key pos mt)
                                 (if fileId \<ge> fid then fileId + 1 else fid))"
  by pat_completeness auto
termination
  by (relation "measure (\<lambda>(data, mt, fid). length data)") auto

definition Bitcask_LoadHint :: "Opening \<Rightarrow> error + Opening" where
  "Bitcask_LoadHint o' =
     (case hint_file (o_dir o') of
        None \<Rightarrow> Inr o'
      | Some data \<Rightarrow>
          if length data < 4 then Inl ErrHintCorrupt
          else (case hintEntries (drop 4 data) (o_memTable o') (o_fileId o') of
                  Inl e \<Rightarrow> Inl e
                | Inr (mt, fid) \<Rightarrow>
                    Inr (o'\<lparr>o_txnId := Uint32 data, o_memTable := mt, o_fileId := fid\<rparr>)))"

text \<open>The segment loop of \<open>loadWalFiles\<close>: the last id becomes the active segment,
  the others go to \<open>oldWal\<close>. \<open>ReadAll\<close> and \<open>UpdateOffset\<close> run under
  \<open>if bc.conf.LoadHint\<close>.\<close>

fun loadLoop :: "Config \<Rightarrow> uint32 list \<Rightarrow> Opening \<Rightarrow> error + Opening" where
  "loadLoop c [] o' = Inr o'"
| "loadLoop c (fid # rest) o' =
     (case NewWal fid (o_dir o') of (curWal, d) \<Rightarrow>
        (case (if LoadHint c
               then (case ReadAll curWal d (o_memTable o') (o_txnId o') of
                       Inl e \<Rightarrow> Inl (wrap_err (ErrReadWal fid) e)
                     | Inr (w, mt, txn) \<Rightarrow> Inr (UpdateOffset w d, mt, txn))
               else Inr (curWal, o_memTable o', o_txnId o')) of
           Inl e \<Rightarrow> Inl e
         | Inr (w, mt, txn) \<Rightarrow>
             loadLoop c rest
               (if rest = []
                then o'\<lparr>o_memTable := mt, o_txnId := txn, o_dir := d,
                        o_activeWal := Some w, o_fileId := fid\<rparr>
                else o'\<lparr>o_memTable := mt, o_txnId := txn, o_dir := d,
                        o_oldWal := (o_oldWal o')(fid \<mapsto> w)\<rparr>)))"

text \<open>\<open>loadWalFiles\<close>: the directory listing holds the files named \<open>wal-<id>.log\<close>
  (other names are skipped by the source); their ids are sorted ascending.\<close>

definition loadWalFiles :: "Config \<Rightarrow> Opening \<Rightarrow> error + Opening" where
  "loadWalFiles c o' =
     (if wal_files (o_dir o') = [] then Inr o'
      else
        let ids = sort (o_fileIds o' @ map fst (wal_files (o_dir o')))
        in loadLoop c ids (o'\<lparr>o_fileIds := ids\<rparr>))"

definition NewBitcask :: "Config \<Rightarrow> Dir \<Rightarrow> error + Bitcask" where
  "NewBitcask c d =
     (case Bitcask_LoadHint
             \<lparr>o_memTable = [], o_txnId = 0, o_fileId = 0, o_fileIds = [],
              o_oldWal = (\<lambda>_. None), o_activeWal = None, o_dir = d\<rparr> of
        Inl e \<Rightarrow> Inl (wrap_err ErrLoadHint e)
      | Inr o1 \<Rightarrow>
          (case loadWalFiles c o1 of
             Inl e \<Rightarrow> Inl e
           | Inr o2 \<Rightarrow>
               (case (case o_activeWal o2 of
                        None \<Rightarrow> NewWal (o_fileId o2) (o_dir o2)
                      | Some w \<Rightarrow> (w, o_dir o2)) of
                  (aw, d') \<Rightarrow>
                    Inr \<lparr>conf = c, activeWal = aw, oldWal = o_oldWal o2,
                         memTable = o_memTable o2, fileId = o_fileId o2,
                         fileIds = o_fileIds o2,
                         txnId = (if o_txnId o2 \<noteq> 0 then o_txnId o2 + 1 else o_txnId o2),
                         flock = flock_New, dir = d'\<rparr>)))"

text \<open>\<open>Bitcask.Hint\<close> writes the transaction id and one entry per index item.\<close>

definition hintEntry :: "bytes \<times> Pos \<Rightarrow> bytes" where
  "hintEntry e =
     (case e of (key, pos) \<Rightarrow>
        PutUint32 (of_nat (length key)) @ PutUint32 (FileId pos) @ PutUint32 (Offset pos)
          @ PutUint32 (Length pos) @ key)"

definition Hint :: "Bitcask \<Rightarrow> Bitcask" where
  "Hint bc =
     bc\<lparr>dir := (dir bc)\<lparr>hint_file :=
           Some (PutUint32 (txnId bc) @ concat (map hintEntry (memTable bc)))\<rparr>\<rparr>"

section \<open>Batches (\<open>batch.go\<close>)\<close>

text \<open>\<open>mp\<close> is a Go map from the key string to the value, where a \<open>nil\<close> value marks
  a delete; \<open>Commit\<close> sets the map itself to \<open>nil\<close>. \<open>keys\<close> holds the keys in the
  order of the calls.\<close>

record Batch =
  mp :: "(bytes \<times> bytes option) list option"
  keys :: "bytes option list"
  b_txnId :: uint32

definition NewBatch :: "Bitcask \<Rightarrow> Batch" where
  "NewBatch db = \<lparr>mp = Some [], keys = [], b_txnId = txnId db\<rparr>"

text \<open>\<open>len(b.mp)\<close>; the length of a \<open>nil\<close> map is 0.\<close>

definition mp_len :: "Batch \<Rightarrow> int" where
  "mp_len b = (case mp b of None \<Rightarrow> 0 | Some m \<Rightarrow> int (length m))"

text \<open>An assignment to an entry of a \<open>nil\<close> map panics.\<close>

definition Batch_Put :: "bytes option \<Rightarrow> bytes option \<Rightarrow> Batch \<Rightarrow> error + Batch" where
  "Batch_Put key val b =
     (case mp b of
        None \<Rightarrow> Inl PanicNilMap
      | Some m \<Rightarrow>
          Inr (b\<lparr>mp := Some (AList.update (bytes_of key) val m), keys := keys b @ [key]\<rparr>))"


definition putTxn :: "bytes option \<Rightarrow> bytes option \<Rightarrow> uint32 \<Rightarrow> Bitcask \<Rightarrow> error option \<times> Bitcask" where
  "putTxn key val txn bc =
     (case key of
        None \<Rightarrow> (Some ErrKeyNil, bc)
      | Some k \<Rightarrow>
          let bc1 = tryRotate bc;
              encKey = EncodeTxnId txn k
          in (case WriteTxn encKey val (activeWal bc1) (dir bc1) of
                Inl e \<Rightarrow> (Some e, bc1)
              | Inr (pos, w, d) \<Rightarrow>
                  (None, bc1\<lparr>activeWal := w, dir := d,
                            memTable := BTreeIndex_Put k pos (memTable bc1)\<rparr>)))"

definition putTxnBegin :: "bytes option \<Rightarrow> uint32 \<Rightarrow> Bitcask \<Rightarrow> error option \<times> Bitcask" where
  "putTxnBegin key txn bc =
     (case key of
        None \<Rightarrow> (Some ErrKeyNil, bc)
      | Some k \<Rightarrow>
          let bc1 = tryRotate bc;
              encKey = EncodeTxnId txn k
          in (case WriteTxnBegin encKey (activeWal bc1) (dir bc1) of
                Inl e \<Rightarrow> (Some e, bc1)
              | Inr (_, w, d) \<Rightarrow> (None, bc1\<lparr>activeWal := w, dir := d\<rparr>)))"

definition putTxnCommit :: "bytes option \<Rightarrow> uint32 \<Rightarrow> Bitcask \<Rightarrow> error option \<times> Bitcask" where
  "putTxnCommit key txn bc =
     (case key of
        None \<Rightarrow> (Some ErrKeyNil, bc)
      | Some k \<Rightarrow>
          let bc1 = tryRotate bc;
              encKey = EncodeTxnId txn k
          in (case WriteTxnCommit encKey (activeWal bc1) (dir bc1) of
                Inl e \<Rightarrow> (Some e, bc1)
              | Inr (_, w, d) \<Rightarrow> (None, bc1\<lparr>activeWal := w, dir := d\<rparr>)))"

definition deleteTxn :: "bytes option \<Rightarrow> uint32 \<Rightarrow> Bitcask \<Rightarrow> error option \<times> Bitcask" where
  "deleteTxn key txn bc =
     (case BTreeIndex_Get (bytes_of key) (memTable bc) of
        None \<Rightarrow> (None, bc)
      | Some _ \<Rightarrow>
          let bc1 = tryRotate bc;
              encKey = EncodeTxnId txn (bytes_of key)
          in (case WriteTxn encKey None (activeWal bc1) (dir bc1) of
                Inl e \<Rightarrow> (Some e, bc1)
              | Inr (_, w, d) \<Rightarrow>
                  (None, bc1\<lparr>activeWal := w, dir := d,
                            memTable := BTreeIndex_Delete (bytes_of key) (memTable bc1)\<rparr>)))"

text \<open>The byte strings \<open>"txn_begin"\<close> and \<open>"txn_commit"\<close>.\<close>

definition txn_begin :: bytes where
  "txn_begin = [0x74, 0x78, 0x6e, 0x5f, 0x62, 0x65, 0x67, 0x69, 0x6e]"

definition txn_commit :: bytes where
  "txn_commit = [0x74, 0x78, 0x6e, 0x5f, 0x63, 0x6f, 0x6d, 0x6d, 0x69, 0x74]"

text \<open>The loop of \<open>Commit\<close> over \<open>b.keys\<close>: a key that is not in the map any more is
  skipped, a \<open>nil\<close> value is a delete.\<close>

fun commitKeys ::
  "bytes option list \<Rightarrow> (bytes \<times> bytes option) list \<Rightarrow> uint32 \<Rightarrow> Bitcask
     \<Rightarrow> error option \<times> Bitcask" where
  "commitKeys [] m txn bc = (None, bc)"
| "commitKeys (key # ks) m txn bc =
     (case map_of m (bytes_of key) of
        None \<Rightarrow> commitKeys ks m txn bc
      | Some val \<Rightarrow>
          (case (case val of
                   None \<Rightarrow> deleteTxn key txn bc
                 | Some v \<Rightarrow> putTxn key (Some v) txn bc) of
             (Some e, bc') \<Rightarrow> (Some e, bc')
           | (None, bc') \<Rightarrow> commitKeys ks m txn bc'))"

definition Commit :: "Batch \<Rightarrow> Bitcask \<Rightarrow> error option \<times> Batch \<times> Bitcask" where
  "Commit b db =
     (if mp_len b \<ge> BatchSize (conf db) then (Some ErrBatchTooLarge, b, db)
      else if mp_len b = 0 then (None, b, db)
      else
        case putTxnBegin (Some txn_begin) (b_txnId b) db of
          (Some e, db1) \<Rightarrow> (Some e, b, db1)
        | (None, db1) \<Rightarrow>
            (case commitKeys (keys b) (case mp b of None \<Rightarrow> [] | Some m \<Rightarrow> m)
                    (b_txnId b) db1 of
               (Some e, db2) \<Rightarrow> (Some e, b, db2)
             | (None, db2) \<Rightarrow>
                 (case putTxnCommit (Some txn_commit) (b_txnId b) db2 of
                    (Some e, db3) \<Rightarrow> (Some e, b, db3)
                  | (None, db3) \<Rightarrow>
                      (None, b\<lparr>keys := [], mp := None\<rparr>, db3\<lparr>txnId := txnId db3 + 1\<rparr>))))"

section \<open>Specification-level definitions\<close>

text \<open>
  The definitions of this section are not code of the engine: they name the sequences of
  calls, the reference results and the invariants that the theorems below are about.
\<close>

text \<open>Reading the record of an index entry, as \<open>get\<close>, \<open>Scan\<close> and \<open>Merge\<close> do:
  pick the segment of the position, then \<open>ReadPos\<close>.\<close>

definition read_entry :: "Bitcask \<Rightarrow> Pos \<Rightarrow> error + Record" where
  "read_entry bc pos =
     (case targetWal bc pos of Inl e \<Rightarrow> Inl e | Inr w \<Rightarrow> ReadPos pos w (dir bc))"

text \<open>The handles of the engine agree with the directory: each handle is filed under
  its own id, no segment has an id above the active one, and the active handle's offset
  is the size of its file.\<close>

definition handles_ok :: "Bitcask \<Rightarrow> bool" where
  "handles_ok bc \<longleftrightarrow>
     wal_fileId (activeWal bc) = fileId bc
     \<and> (\<forall>i w. oldWal bc i = Some w \<longrightarrow> wal_fileId w = i)
     \<and> (\<forall>i. map_of (wal_files (dir bc)) i \<noteq> None \<longrightarrow> i \<le> fileId bc)
     \<and> (case map_of (wal_files (dir bc)) (fileId bc) of
           None \<Rightarrow> False
         | Some content \<Rightarrow> unat (wal_offset (activeWal bc)) = length content)"

text \<open>A call of \<open>Put\<close> or \<open>Delete\<close> with a non-nil key; the value of a put may be
  \<open>nil\<close>. \<open>run_ops\<close> makes the calls in order on the same engine and collects the
  errors returned.\<close>

datatype op = OpPut bytes "bytes option" | OpDelete bytes

fun run_op :: "op \<Rightarrow> Bitcask \<Rightarrow> error option \<times> Bitcask" where
  "run_op (OpPut k v) bc = Put (Some k) v bc"
| "run_op (OpDelete k) bc = Delete (Some k) bc"

fun run_ops :: "op list \<Rightarrow> Bitcask \<Rightarrow> error option list \<times> Bitcask" where
  "run_ops [] bc = ([], bc)"
| "run_ops (x # xs) bc =
     (case run_op x bc of (e, bc') \<Rightarrow> (case run_ops xs bc' of (es, bc'') \<Rightarrow> (e # es, bc'')))"

text \<open>The reference store of a sequence of calls: the value of the latest put of each
  key, unless a delete came after it. \<open>claimed_get\<close> is the result that a lookup is
  said to have: the latest value with \<open>true\<close>, else \<open>(nil, false)\<close>.\<close>

fun claimed_op :: "(bytes \<Rightarrow> bytes option option) \<Rightarrow> op \<Rightarrow> (bytes \<Rightarrow> bytes option option)" where
  "claimed_op m (OpPut k v) = m(k \<mapsto> v)"
| "claimed_op m (OpDelete k) = m(k := None)"

definition claimed_store :: "op list \<Rightarrow> bytes \<Rightarrow> bytes option option" where
  "claimed_store ops = foldl claimed_op (\<lambda>_. None) ops"

definition claimed_get :: "op list \<Rightarrow> bytes \<Rightarrow> bytes option \<times> bool" where
  "claimed_get ops k = (case claimed_store ops k of None \<Rightarrow> (None, False) | Some v \<Rightarrow> (v, True))"

text \<open>What the engine returns instead: a put of a \<open>nil\<close> value reads as not found.\<close>

definition engine_get :: "op list \<Rightarrow> bytes \<Rightarrow> bytes option \<times> bool" where
  "engine_get ops k =
     (case claimed_store ops k of Some (Some v) \<Rightarrow> (Some v, True) | _ \<Rightarrow> (None, False))"

text \<open>The size caps of the codec: keys of at most 10 MiB, values of at most 100 MiB.\<close>

fun op_in_caps :: "op \<Rightarrow> bool" where
  "op_in_caps (OpPut k v) \<longleftrightarrow> length k \<le> 10485760 \<and> length (bytes_of v) \<le> 104857600"
| "op_in_caps (OpDelete k) \<longleftrightarrow> length k \<le> 10485760"


text \<open>The engine holds the reference store \<open>m\<close>: the index is in order and has an
  entry exactly for the keys of \<open>m\<close>, and each entry reads back the record that
  \<open>NewRecord\<close> makes of the key and the value.\<close>

definition store_inv :: "(bytes \<Rightarrow> bytes option option) \<Rightarrow> Bitcask \<Rightarrow> bool" where
  "store_inv m bc \<longleftrightarrow>
     handles_ok bc \<and> sorted_wrt item_Less (map fst (memTable bc))
     \<and> (\<forall>k. case m k of
               None \<Rightarrow> map_of (memTable bc) k = None
             | Some v \<Rightarrow> (\<exists>pos. map_of (memTable bc) k = Some pos
                            \<and> read_entry bc pos = Inr (NewRecord k v)))"

text \<open>An empty data directory, and the engine that \<open>NewBitcask\<close> returns on it.\<close>

definition empty_dir :: "bool \<Rightarrow> Dir" where
  "empty_dir l = \<lparr>wal_files = [], hint_file = None, lock_held = l\<rparr>"

definition fresh_store :: "Config \<Rightarrow> bool \<Rightarrow> Bitcask" where
  "fresh_store c l = projr (NewBitcask c (empty_dir l))"

text \<open>The invariant of the data model on one index entry: its location lies in an
  existing segment and decodes to a record with the entry's key
  (\<open>index_entry_reads\<close>) that is not a tombstone (\<open>index_entry_ok\<close>).\<close>

definition index_entry_reads :: "Bitcask \<Rightarrow> bytes \<times> Pos \<Rightarrow> bool" where
  "index_entry_reads bc e =
     (case e of (k, pos) \<Rightarrow>
        (case read_entry bc pos of Inl _ \<Rightarrow> False | Inr rec \<Rightarrow> Key rec = k))"


text \<open>What \<open>DecodeRecord\<close> makes of an encoded record: the two transactional data
  types lose the four bytes of the transaction id that the writer put before the key.\<close>

definition is_txn_data :: "Record \<Rightarrow> bool" where
  "is_txn_data r \<longleftrightarrow> RecordType r = RecordTypeTxnPut \<or> RecordType r = RecordTypeTxnDelete"

definition strip_txn_key :: "Record \<Rightarrow> Record" where
  "strip_txn_key r = (if is_txn_data r then r\<lparr>Key := drop 4 (Key r)\<rparr> else r)"

definition decoded :: "Record \<Rightarrow> error + Record" where
  "decoded r = (if is_txn_data r \<and> length (Key r) < 4 then Inl PanicSliceBounds
                else Inr (strip_txn_key r))"

text \<open>A directory whose hint file names a segment that is not there: the state that a
  crash leaves after a merge has deleted the segments of an older hint.\<close>

definition stale_hint_dir :: Dir where
  "stale_hint_dir =
     \<lparr>wal_files = [],
      hint_file = Some (PutUint32 0 @ hintEntry ([107], \<lparr>FileId = 5, Offset = 0, Length = 15\<rparr>)),
      lock_held = False\<rparr>"

text \<open>A configuration with a small rotation threshold, and a batch with one put.\<close>

definition cfg :: Config where
  "cfg = \<lparr>MaxFileSize = 100, LoadHint = True, BatchSize = 200\<rparr>"

definition batch1 :: Batch where
  "batch1 = projr (Batch_Put (Some [107]) (Some [118]) (NewBatch (fresh_store cfg False)))"

text \<open>
  The bytes of a record with any stored checksum (\<open>Encode\<close> stores the right one),
  the length of these bytes, and the size caps on a record.
\<close>

definition frame :: "Record \<Rightarrow> uint32 \<Rightarrow> bytes" where
  "frame r c = header r @ Key r @ Value r @ PutUint32 c"

definition frame_length :: "Record \<Rightarrow> nat" where
  "frame_length r = 13 + length (Key r) + length (Value r)"

definition record_in_caps :: "Record \<Rightarrow> bool" where
  "record_in_caps r \<longleftrightarrow> length (Key r) \<le> 10485760 \<and> length (Value r) \<le> 104857600"

definition good_crc :: "Record \<Rightarrow> uint32" where
  "good_crc r = ChecksumIEEE (header r @ Key r @ Value r)"

definition bad_crc :: "Record \<Rightarrow> uint32" where
  "bad_crc r = good_crc r + 1"

text \<open>The replay closure run on a list of records that lie one after the other from
  offset \<open>off\<close> of segment \<open>fid\<close>, and the state in which \<open>ReadAll\<close> starts it.\<close>

fun replay_records :: "uint32 \<Rightarrow> nat \<Rightarrow> Record list \<Rightarrow> replay \<Rightarrow> error + replay" where
  "replay_records fid off [] st = Inr st"
| "replay_records fid off (r # rs) st =
     (case updatedFunc r \<lparr>FileId = fid, Offset = of_nat off,
                          Length = of_nat (frame_length r)\<rparr> st of
        Inl e \<Rightarrow> Inl e
      | Inr st' \<Rightarrow> replay_records fid (off + frame_length r) rs st')"

definition replay0 :: "memTable \<Rightarrow> uint32 \<Rightarrow> replay" where
  "replay0 mt txn = \<lparr>batchData = (\<lambda>_. []), txnFlag = False, curTxnId = 0,
                      r_memTable = mt, dbTxnId = txn\<rparr>"

text \<open>The bytes at which the record loop of \<open>ReadAll\<close> stops: fewer than a header, a
  length above the caps, or a record that goes beyond the end.\<close>

definition incomplete :: "bytes \<Rightarrow> bool" where
  "incomplete tail \<longleftrightarrow>
     length tail < 9
     \<or> Uint32 (slice tail 1 5) > 10 * 1024 * 1024
     \<or> Uint32 (slice tail 5 9) > 100 * 1024 * 1024
     \<or> 13 + unat (Uint32 (slice tail 1 5)) + unat (Uint32 (slice tail 5 9)) > length tail"

text \<open>Example directories and records: the directory that a put on a fresh engine
  leaves, a directory with one segment, two put records, and the three records of a
  transaction with one put under a small rotation threshold.\<close>

definition put_107 :: Record where
  "put_107 = NewRecord [107] (Some [118])"

definition one_put_dir :: Dir where
  "one_put_dir = dir (snd (Put (Some [107]) (Some [118]) (fresh_store cfg False)))"

definition seg_dir :: "bytes \<Rightarrow> Dir" where
  "seg_dir content = \<lparr>wal_files = [(0, content)], hint_file = None, lock_held = False\<rparr>"

definition put_1 :: Record where
  "put_1 = \<lparr>RecordType = RecordTypePut, Key = [1], Value = [10]\<rparr>"

definition put_2 :: Record where
  "put_2 = \<lparr>RecordType = RecordTypePut, Key = [2], Value = [20]\<rparr>"

definition cfg20 :: Config where
  "cfg20 = \<lparr>MaxFileSize = 20, LoadHint = True, BatchSize = 200\<rparr>"

definition txn_begin_rec :: Record where
  "txn_begin_rec = NewTxnBegin (EncodeTxnId 0 txn_begin)"

definition txn_put_rec :: Record where
  "txn_put_rec = NewTxnRecord (EncodeTxnId 0 [107]) (Some [118])"

definition txn_commit_rec :: Record where
  "txn_commit_rec = NewTxnCommit (EncodeTxnId 0 txn_commit)"

definition committed :: Bitcask where
  "committed = snd (snd (Commit batch1 (fresh_store cfg20 False)))"

text \<open>The key of an index entry with the value of the record that the entry
  references, and the entries of the index whose keys lie in a range, in index order.\<close>

definition entry_value :: "Bitcask \<Rightarrow> bytes \<times> Pos \<Rightarrow> bytes \<times> bytes" where
  "entry_value bc e =
     (case e of (k, pos) \<Rightarrow>
        (k, case read_entry bc pos of Inl _ \<Rightarrow> [] | Inr rec \<Rightarrow> Value rec))"

definition index_range :: "Bitcask \<Rightarrow> bytes \<Rightarrow> bytes \<Rightarrow> (bytes \<times> bytes) list" where
  "index_range bc start end' =
     map (entry_value bc)
       (filter (\<lambda>e. KeyComparator_InRange (fst e) start end') (memTable bc))"

text \<open>An example store for range scans: two keys with values and, between them, a key
  whose last put had a \<open>nil\<close> value.\<close>

definition scan_ops :: "op list" where
  "scan_ops = [OpPut [9] (Some [90]), OpPut [1] (Some [10]), OpPut [4] None]"

definition scanned :: Bitcask where
  "scanned = snd (run_ops scan_ops (fresh_store cfg False))"

section \<open>Sessions with batches\<close>
















section \<open>Codec lemmas\<close>

lemma length_PutUint32 [simp]: "length (PutUint32 v) = 4"
  by (simp add: PutUint32_def)

lemma Uint32_PutUint32 [simp]: "Uint32 (PutUint32 v @ rest) = v"
  unfolding PutUint32_def
proof (simp, rule bit_word_eqI)
  fix n assume "n < LENGTH(32)"
  then have n: "n < 32" by simp
  consider "n < 8" | "8 \<le> n" "n < 16" | "16 \<le> n" "n < 24" | "24 \<le> n" "n < 32"
    using n by linarith
  then show "bit (push_bit 24 (ucast (ucast (drop_bit 24 v) :: byte)) OR
            push_bit 16 (ucast (ucast (drop_bit 16 v) :: byte)) OR
            push_bit 8 (ucast (ucast (drop_bit 8 v) :: byte)) OR ucast (ucast v :: byte)
              :: uint32) n = bit v n"
    by cases (auto simp: bit_simps)
qed

lemma Uint32_PutUint32_only [simp]: "Uint32 (PutUint32 v) = v"
  using Uint32_PutUint32 [of v "[]"] by simp

lemma unat_of_nat32: "n < 4294967296 \<Longrightarrow> unat (of_nat n :: uint32) = n"
  by (simp add: unat_of_nat)

lemma DecodeRecord_frame:
  assumes lk: "length key \<le> 10485760" and lv: "length val \<le> 104857600"
  shows "DecodeRecord (t # PutUint32 (of_nat (length key)) @ PutUint32 (of_nat (length val))
            @ key @ val @ PutUint32 c) =
     (if c \<noteq> ChecksumIEEE (t # PutUint32 (of_nat (length key))
                 @ PutUint32 (of_nat (length val)) @ key @ val)
      then Inl ErrCrcMismatch
      else if t = RecordTypeTxnPut \<or> t = RecordTypeTxnDelete
      then (if length key < 4 then Inl PanicSliceBounds
            else Inr \<lparr>RecordType = t, Key = drop 4 key, Value = val\<rparr>)
      else Inr \<lparr>RecordType = t, Key = key, Value = val\<rparr>)"
proof -
  let ?K = "of_nat (length key) :: uint32" and ?V = "of_nat (length val) :: uint32"
  have uk: "unat ?K = length key" using lk by (simp add: unat_of_nat32)
  have uv: "unat ?V = length val" using lv by (simp add: unat_of_nat32)
  have k9: "unat (9 + ?K) = 9 + length key"
    using lk by (simp add: unat_word_ariths uk)
  have kv9: "unat (9 + ?K + ?V) = 9 + length key + length val"
    using lk lv by (simp add: unat_word_ariths uk uv)
  have capk: "\<not> ?K > 10 * 1024 * 1024" using uk lk by (simp add: word_less_nat_alt)
  have capv: "\<not> ?V > 100 * 1024 * 1024" using uv lv by (simp add: word_less_nat_alt)
  have len: "\<not> (of_nat (13 + length key + length val) :: uint32) < 9 + ?K + ?V + 4"
    using lk lv by (simp add: word_less_nat_alt unat_word_ariths uk uv)
  define hdr where "hdr = t # PutUint32 ?K @ PutUint32 ?V"
  define data where "data = hdr @ key @ val @ PutUint32 c"
  have lh: "length hdr = 9" by (simp add: hdr_def)
  have ld: "length data = 13 + length key + length val" by (simp add: data_def lh)
  have d0: "data ! 0 = t" by (simp add: data_def hdr_def)
  have s1: "slice data 1 5 = PutUint32 ?K" by (simp add: slice_def data_def hdr_def)
  have s2: "slice data 5 9 = PutUint32 ?V" by (simp add: slice_def data_def hdr_def)
  have sk: "slice data 9 (9 + length key) = key" by (simp add: slice_def data_def lh)
  have sv: "slice data (9 + length key) (9 + length key + length val) = val"
    by (simp add: slice_def data_def lh)
  have sc: "drop (9 + length key + length val) data = PutUint32 c"
    by (simp add: data_def lh)
  have st: "take (9 + length key + length val) data = hdr @ key @ val"
    by (simp add: data_def lh)
  have "DecodeRecord data =
     (if c \<noteq> ChecksumIEEE (hdr @ key @ val)
      then Inl ErrCrcMismatch
      else if t = RecordTypeTxnPut \<or> t = RecordTypeTxnDelete
      then (if length key < 4 then Inl PanicSliceBounds
            else Inr \<lparr>RecordType = t, Key = drop 4 key, Value = val\<rparr>)
      else Inr \<lparr>RecordType = t, Key = key, Value = val\<rparr>)"
    unfolding DecodeRecord_def Let_def s1 s2 Uint32_PutUint32_only k9 kv9 sk sv sc st d0 ld
    using capk capv len
    by (simp add: DecodeTxnId_def)
  then show ?thesis by (simp add: data_def hdr_def)
qed

lemma Encode_frame:
  "Encode r = RecordType r # PutUint32 (of_nat (length (Key r)))
     @ PutUint32 (of_nat (length (Value r))) @ Key r @ Value r
     @ PutUint32 (ChecksumIEEE (RecordType r # PutUint32 (of_nat (length (Key r)))
         @ PutUint32 (of_nat (length (Value r))) @ Key r @ Value r))"
  by (simp add: Encode_def header_def Let_def)

lemma length_Encode: "length (Encode r) = 13 + length (Key r) + length (Value r)"
  by (simp add: Encode_frame)

lemma DecodeRecord_Encode:
  assumes "length (Key r) \<le> 10485760" and "length (Value r) \<le> 104857600"
  shows "DecodeRecord (Encode r) =
     (if RecordType r = RecordTypeTxnPut \<or> RecordType r = RecordTypeTxnDelete
      then (if length (Key r) < 4 then Inl PanicSliceBounds
            else Inr (r\<lparr>Key := drop 4 (Key r)\<rparr>))
      else Inr r)"
  by (subst Encode_frame, subst DecodeRecord_frame [OF assms]) simp

section \<open>Segments, index and engine steps\<close>

lemma map_of_update [simp]: "map_of (AList.update k v al) = (map_of al)(k \<mapsto> v)"
  by (rule AList.update_conv')

lemma ReadPos_append:
  assumes "map_of (wal_files d) i = Some content"
    and "ReadPos pos w d = Inr rec"
  shows "ReadPos pos w (d\<lparr>wal_files := AList.update i (content @ extra) (wal_files d)\<rparr>) = Inr rec"
proof (cases "wal_fileId w = i")
  case True
  with assms show ?thesis
    by (auto simp: ReadPos_def Let_def slice_def split: if_splits sum.splits)
next
  case False
  with assms show ?thesis
    by (auto simp: ReadPos_def Let_def split: option.splits)
qed

lemma ReadPos_new_file:
  assumes "map_of (wal_files d) i = None"
    and "ReadPos pos w d = Inr rec"
  shows "ReadPos pos w (d\<lparr>wal_files := AList.update i [] (wal_files d)\<rparr>) = Inr rec"
  using assms by (cases "wal_fileId w = i") (auto simp: ReadPos_def Let_def split: option.splits)

lemma ReadPos_written:
  assumes m: "map_of (wal_files d) (wal_fileId w) = Some content"
    and off: "unat (wal_offset w) = length content"
    and bound: "length content + length (Encode r) < 4294967296"
  shows "\<exists>pos w' d'. Wal_write r w d = Inr (pos, w', d')
           \<and> pos = \<lparr>FileId = wal_fileId w, Offset = wal_offset w,
                     Length = of_nat (length (Encode r))\<rparr>
           \<and> wal_fileId w' = wal_fileId w
           \<and> unat (wal_offset w') = length (content @ Encode r)
           \<and> d' = d\<lparr>wal_files := AList.update (wal_fileId w) (content @ Encode r) (wal_files d)\<rparr>
           \<and> ReadPos pos w' d' =
               (case DecodeRecord (Encode r) of
                  Inl e \<Rightarrow> Inl (wrap_err (ErrDecodeAt (wal_offset w)) e) | Inr rec \<Rightarrow> Inr rec)"
proof -
  have le: "unat (of_nat (length (Encode r)) :: uint32) = length (Encode r)"
    using bound by (simp add: unat_of_nat32)
  have pos: "0 < length (Encode r)" by (simp add: length_Encode)
  have o': "unat (wal_offset w + of_nat (length (Encode r))) = length content + length (Encode r)"
    using bound by (simp add: unat_word_ariths off le)
  show ?thesis
    using pos by (auto simp: Wal_write_def m Let_def ReadPos_def off le o' slice_def split: sum.splits)
qed

lemma read_entry_memTable [simp]: "read_entry (bc\<lparr>memTable := m\<rparr>) = read_entry bc"
  by (rule ext) (auto simp: read_entry_def targetWal_def split: option.splits sum.splits)

lemma handles_ok_memTable [simp]: "handles_ok (bc\<lparr>memTable := m\<rparr>) = handles_ok bc"
  by (auto simp: handles_ok_def split: option.splits)

lemma read_entry_txnId [simp]: "read_entry (bc\<lparr>txnId := m\<rparr>) = read_entry bc"
  by (rule ext) (auto simp: read_entry_def targetWal_def split: option.splits sum.splits)

lemma handles_ok_txnId [simp]: "handles_ok (bc\<lparr>txnId := m\<rparr>) = handles_ok bc"
  by (auto simp: handles_ok_def split: option.splits)

lemma word_succ_neq: "unat (x :: uint32) + 1 < 4294967296 \<Longrightarrow> \<not> x + 1 \<le> x"
  by (simp add: word_le_nat_alt unat_word_ariths)

lemma mustRotate_step:
  assumes h: "handles_ok bc" and nw: "unat (fileId bc) + 1 < 4294967296"
  shows "handles_ok (mustRotate bc)"
    and "read_entry bc pos = Inr rec \<Longrightarrow> read_entry (mustRotate bc) pos = Inr rec"
    and "map_of (wal_files (dir (mustRotate bc))) (fileId (mustRotate bc)) = Some []"
    and "fileId (mustRotate bc) = fileId bc + 1"
    and "memTable (mustRotate bc) = memTable bc"
    and "conf (mustRotate bc) = conf bc"
    and "txnId (mustRotate bc) = txnId bc"
proof -
  have fresh: "map_of (wal_files (dir bc)) (fileId bc + 1) = None"
    using h word_succ_neq [OF nw] by (auto simp: handles_ok_def)
  have ne: "fileId bc + 1 \<noteq> fileId bc" by simp
  have le: "fileId bc \<le> fileId bc + 1"
    using nw by (simp add: word_le_nat_alt unat_word_ariths)
  show "handles_ok (mustRotate bc)"
    using h fresh le
    by (auto simp: handles_ok_def mustRotate_def NewWal_def Let_def split: option.splits
             intro: order_trans)
  show "map_of (wal_files (dir (mustRotate bc))) (fileId (mustRotate bc)) = Some []"
    using fresh by (simp add: mustRotate_def NewWal_def Let_def)
  show "fileId (mustRotate bc) = fileId bc + 1"
    by (simp add: mustRotate_def NewWal_def Let_def split: prod.splits)
  show "memTable (mustRotate bc) = memTable bc"
    by (simp add: mustRotate_def NewWal_def Let_def split: prod.splits)
  show "conf (mustRotate bc) = conf bc"
    by (simp add: mustRotate_def NewWal_def Let_def split: prod.splits)
  show "txnId (mustRotate bc) = txnId bc"
    by (simp add: mustRotate_def NewWal_def Let_def split: prod.splits)
  assume r: "read_entry bc pos = Inr rec"
  show "read_entry (mustRotate bc) pos = Inr rec"
  proof (cases "FileId pos = fileId bc")
    case True
    with r have "ReadPos pos (activeWal bc) (dir bc) = Inr rec"
      by (simp add: read_entry_def targetWal_def)
    from ReadPos_new_file [OF fresh this] True show ?thesis
      by (simp add: read_entry_def targetWal_def mustRotate_def NewWal_def Let_def fresh)
  next
    case False
    with r obtain w where w: "oldWal bc (FileId pos) = Some w"
      and rp: "ReadPos pos w (dir bc) = Inr rec"
      by (auto simp: read_entry_def targetWal_def split: option.splits)
    have wid: "wal_fileId w = FileId pos" using h w by (auto simp: handles_ok_def)
    have "FileId pos \<noteq> fileId bc + 1"
    proof
      assume "FileId pos = fileId bc + 1"
      with rp wid fresh show False by (simp add: ReadPos_def)
    qed
    with False w ReadPos_new_file [OF fresh rp] show ?thesis
      by (simp add: read_entry_def targetWal_def mustRotate_def NewWal_def Let_def fresh)
  qed
qed

lemma ReadPos_cong_fileId: "wal_fileId w = wal_fileId w' \<Longrightarrow> ReadPos pos w d = ReadPos pos w' d"
  by (simp add: ReadPos_def)

lemma tryRotate_step:
  assumes h: "handles_ok bc" and nw: "unat (fileId bc) + 1 < 4294967296"
  shows "handles_ok (tryRotate bc)"
    and "read_entry bc pos = Inr rec \<Longrightarrow> read_entry (tryRotate bc) pos = Inr rec"
    and "\<exists>c. map_of (wal_files (dir (tryRotate bc))) (fileId (tryRotate bc)) = Some c
           \<and> length c \<le> unat (MaxFileSize (conf bc))"
    and "unat (fileId (tryRotate bc)) \<le> unat (fileId bc) + 1"
    and "memTable (tryRotate bc) = memTable bc"
    and "conf (tryRotate bc) = conf bc"
    and "txnId (tryRotate bc) = txnId bc"
proof -
  note ms = mustRotate_step [OF h nw]
  show "handles_ok (tryRotate bc)" using h ms(1) by (simp add: tryRotate_def)
  show "memTable (tryRotate bc) = memTable bc" using ms(5) by (simp add: tryRotate_def)
  show "conf (tryRotate bc) = conf bc" using ms(6) by (simp add: tryRotate_def)
  show "txnId (tryRotate bc) = txnId bc" using ms(7) by (simp add: tryRotate_def)
  show "unat (fileId (tryRotate bc)) \<le> unat (fileId bc) + 1"
    using ms(4) nw by (simp add: tryRotate_def unat_word_ariths)
  show "\<exists>c. map_of (wal_files (dir (tryRotate bc))) (fileId (tryRotate bc)) = Some c
           \<and> length c \<le> unat (MaxFileSize (conf bc))"
  proof (cases "Wal_Size (activeWal bc) < MaxFileSize (conf bc)")
    case True
    with h show ?thesis
      by (auto simp: tryRotate_def handles_ok_def Wal_Size_def word_less_nat_alt
               split: option.splits)
  next
    case False
    with ms(3) show ?thesis by (simp add: tryRotate_def)
  qed
  assume "read_entry bc pos = Inr rec"
  then show "read_entry (tryRotate bc) pos = Inr rec"
    using ms(2) by (simp add: tryRotate_def)
qed

lemma write_step:
  assumes h: "handles_ok bc" and nw: "unat (fileId bc) + 1 < 4294967296"
    and sz: "unat (MaxFileSize (conf bc)) + length (Encode r) < 4294967296"
  shows "\<exists>pos w d. Wal_write r (activeWal (tryRotate bc)) (dir (tryRotate bc)) = Inr (pos, w, d)
     \<and> handles_ok ((tryRotate bc)\<lparr>activeWal := w, dir := d\<rparr>)
     \<and> (\<forall>p rec. read_entry bc p = Inr rec
            \<longrightarrow> read_entry ((tryRotate bc)\<lparr>activeWal := w, dir := d\<rparr>) p = Inr rec)
     \<and> read_entry ((tryRotate bc)\<lparr>activeWal := w, dir := d\<rparr>) pos =
          (case DecodeRecord (Encode r) of
             Inl e \<Rightarrow> Inl (wrap_err (ErrDecodeAt (Offset pos)) e) | Inr rec \<Rightarrow> Inr rec)"
proof -
  let ?b = "tryRotate bc"
  note ts = tryRotate_step [OF h nw]
  from ts(3) obtain c where c: "map_of (wal_files (dir ?b)) (fileId ?b) = Some c"
    and lc: "length c \<le> unat (MaxFileSize (conf bc))" by blast
  have wid: "wal_fileId (activeWal ?b) = fileId ?b" using ts(1) by (simp add: handles_ok_def)
  have off: "unat (wal_offset (activeWal ?b)) = length c"
    using ts(1) c by (simp add: handles_ok_def)
  have bound: "length c + length (Encode r) < 4294967296" using lc sz by simp
  from ReadPos_written [of "dir ?b" "activeWal ?b" c r] c wid off bound
  obtain pos w d where ww: "Wal_write r (activeWal ?b) (dir ?b) = Inr (pos, w, d)"
    and pos: "pos = \<lparr>FileId = fileId ?b, Offset = wal_offset (activeWal ?b),
                     Length = of_nat (length (Encode r))\<rparr>"
    and w: "wal_fileId w = fileId ?b" "unat (wal_offset w) = length (c @ Encode r)"
    and d: "d = (dir ?b)\<lparr>wal_files := AList.update (fileId ?b) (c @ Encode r)
                              (wal_files (dir ?b))\<rparr>"
    and rp: "ReadPos pos w d =
               (case DecodeRecord (Encode r) of
                  Inl e \<Rightarrow> Inl (wrap_err (ErrDecodeAt (wal_offset (activeWal ?b))) e)
                | Inr rec \<Rightarrow> Inr rec)"
    by auto
  let ?b' = "?b\<lparr>activeWal := w, dir := d\<rparr>"
  have h': "handles_ok ?b'"
    using ts(1) w c by (auto simp: handles_ok_def d split: if_splits)
  have pres: "read_entry ?b' p = Inr rec" if r0: "read_entry bc p = Inr rec" for p rec
  proof -
    from ts(2) [OF r0] have r1: "read_entry ?b p = Inr rec" .
    show ?thesis
    proof (cases "FileId p = fileId ?b")
      case True
      with r1 have "ReadPos p (activeWal ?b) (dir ?b) = Inr rec"
        by (simp add: read_entry_def targetWal_def)
      then have "ReadPos p w (dir ?b) = Inr rec"
        using ReadPos_cong_fileId [of w "activeWal ?b"] w(1) wid by simp
      from ReadPos_append [OF c this] True show ?thesis
        by (simp add: read_entry_def targetWal_def d)
    next
      case False
      with r1 obtain w0 where w0: "oldWal ?b (FileId p) = Some w0"
        and rp0: "ReadPos p w0 (dir ?b) = Inr rec"
        by (auto simp: read_entry_def targetWal_def split: option.splits)
      from ReadPos_append [OF c rp0] False w0 show ?thesis
        by (simp add: read_entry_def targetWal_def d)
    qed
  qed
  have new: "read_entry ?b' pos =
          (case DecodeRecord (Encode r) of
             Inl e \<Rightarrow> Inl (wrap_err (ErrDecodeAt (Offset pos)) e) | Inr rec \<Rightarrow> Inr rec)"
    using rp by (auto simp: read_entry_def targetWal_def pos split: sum.splits)
  show ?thesis using ww h' pres new by blast
qed

lemma bytes_Compare_lexord:
  "bytes_Compare a b < 0 \<longleftrightarrow> (a, b) \<in> lexord {(x, y). x < y}"
  by (induction a b rule: bytes_Compare.induct) auto

lemma item_Less_irrefl [simp]: "\<not> item_Less k k"
  by (simp add: item_Less_def bytes_Compare_lexord lexord_irreflexive)

lemma item_Less_trans: "item_Less a b \<Longrightarrow> item_Less b c \<Longrightarrow> item_Less a c"
proof -
  have tr: "trans {(x :: byte, y). x < y}" by (auto simp: trans_def)
  assume "item_Less a b" "item_Less b c"
  then show ?thesis
    using lexord_trans [OF _ _ tr, of a b c]
    by (auto simp: item_Less_def bytes_Compare_lexord split: if_splits)
qed

lemma item_Less_total: "\<not> item_Less a b \<Longrightarrow> \<not> item_Less b a \<Longrightarrow> a = b"
proof -
  have lin: "\<And>x y :: byte. x \<noteq> y \<Longrightarrow> (x, y) \<in> {(x, y). x < y} \<or> (y, x) \<in> {(x, y). x < y}"
    by auto
  assume "\<not> item_Less a b" "\<not> item_Less b a"
  then show ?thesis
    using lexord_linear [of "{(x :: byte, y). x < y}" a b] lin
    by (auto simp: item_Less_def bytes_Compare_lexord split: if_splits)
qed

lemma item_Less_asym: "item_Less a b \<Longrightarrow> \<not> item_Less b a"
  using item_Less_trans [of a b a] by auto

lemma map_of_ReplaceOrInsert [simp]:
  "map_of (ReplaceOrInsert k p t) = (map_of t)(k \<mapsto> p)"
proof (induction t)
  case Nil
  show ?case by simp
next
  case (Cons a t)
  obtain k' p' where a: "a = (k', p')" by (cases a)
  show ?case
  proof (cases "item_Less k k'")
    case True
    then show ?thesis by (auto simp: a fun_eq_iff)
  next
    case False
    show ?thesis
    proof (cases "item_Less k' k")
      case True
      then have "k \<noteq> k'" by auto
      with True False Cons show ?thesis by (auto simp: a fun_eq_iff)
    next
      case False
      with \<open>\<not> item_Less k k'\<close> have "k = k'" by (rule item_Less_total)
      with False show ?thesis by (auto simp: a fun_eq_iff)
    qed
  qed
qed

lemma map_of_BTreeIndex_Delete [simp]:
  "map_of (BTreeIndex_Delete k t) = (map_of t)(k := None)"
  by (induction t) (auto simp: BTreeIndex_Delete_def)

lemma set_ReplaceOrInsert:
  "set (map fst (ReplaceOrInsert k p t)) = insert k (set (map fst t))"
proof (induction t)
  case Nil
  show ?case by simp
next
  case (Cons a t)
  obtain k' p' where a: "a = (k', p')" by (cases a)
  consider "item_Less k k'" | "\<not> item_Less k k'" "item_Less k' k"
    | "\<not> item_Less k k'" "\<not> item_Less k' k" by blast
  then show ?case
  proof cases
    case 1
    then show ?thesis by (simp add: a)
  next
    case 2
    with Cons.IH show ?thesis by (simp add: a insert_commute)
  next
    case 3
    then have "k = k'" by (rule item_Less_total)
    with 3 show ?thesis by (simp add: a)
  qed
qed

lemma sorted_ReplaceOrInsert:
  "sorted_wrt item_Less (map fst t) \<Longrightarrow> sorted_wrt item_Less (map fst (ReplaceOrInsert k p t))"
proof (induction t)
  case Nil
  show ?case by simp
next
  case (Cons a t)
  obtain k' p' where a: "a = (k', p')" by (cases a)
  from Cons.prems have st: "sorted_wrt item_Less (map fst t)"
    and all: "\<forall>x \<in> set t. item_Less k' (fst x)" by (auto simp: a)
  show ?case
  proof (cases "item_Less k k'")
    case True
    with all have "\<forall>x \<in> set t. item_Less k (fst x)" by (blast intro: item_Less_trans)
    with True Cons.prems show ?thesis by (auto simp: a)
  next
    case False
    show ?thesis
    proof (cases "item_Less k' k")
      case True
      have "\<forall>x \<in> set (map fst (ReplaceOrInsert k p t)). item_Less k' x"
        unfolding set_ReplaceOrInsert using all True by auto
      with True False Cons.IH [OF st] show ?thesis by (auto simp: a)
    next
      case False
      with \<open>\<not> item_Less k k'\<close> have "k = k'" by (rule item_Less_total)
      with False Cons.prems show ?thesis by (auto simp: a)
    qed
  qed
qed

lemma sorted_BTreeIndex_Delete:
  "sorted_wrt item_Less (map fst t) \<Longrightarrow> sorted_wrt item_Less (map fst (BTreeIndex_Delete k t))"
  by (induction t) (auto simp: BTreeIndex_Delete_def)

lemma sorted_distinct_keys: "sorted_wrt item_Less (map fst t) \<Longrightarrow> distinct (map fst t)"
  by (induction t) auto

lemma length_Encode_NewRecord:
  "length (Encode (NewRecord k v)) = 13 + length k + length (bytes_of v)"
  by (simp add: length_Encode NewRecord_def newRecord_def bytes_of_def split: option.splits)

lemma DecodeRecord_NewRecord:
  assumes "length k \<le> 10485760" "length (bytes_of v) \<le> 104857600"
  shows "DecodeRecord (Encode (NewRecord k v)) = Inr (NewRecord k v)"
  using assms
  by (subst DecodeRecord_Encode)
     (auto simp: NewRecord_def newRecord_def bytes_of_def split: option.splits)

lemma Put_step:
  assumes h: "handles_ok bc" and nw: "unat (fileId bc) + 1 < 4294967296"
    and sz: "unat (MaxFileSize (conf bc)) + 115343373 < 4294967296"
    and ck: "length k \<le> 10485760" and cv: "length (bytes_of v) \<le> 104857600"
  shows "\<exists>pos bc'. Put (Some k) v bc = (None, bc') \<and> handles_ok bc'
     \<and> memTable bc' = ReplaceOrInsert k pos (memTable bc)
     \<and> (\<forall>p rec. read_entry bc p = Inr rec \<longrightarrow> read_entry bc' p = Inr rec)
     \<and> read_entry bc' pos = Inr (NewRecord k v)
     \<and> conf bc' = conf bc \<and> txnId bc' = txnId bc
     \<and> unat (fileId bc') \<le> unat (fileId bc) + 1"
proof -
  have sz': "unat (MaxFileSize (conf bc)) + length (Encode (NewRecord k v)) < 4294967296"
    using sz ck cv by (simp add: length_Encode_NewRecord)
  note ts = tryRotate_step [OF h nw]
  from write_step [OF h nw sz'] obtain pos w d where
    ww: "Wal_write (NewRecord k v) (activeWal (tryRotate bc)) (dir (tryRotate bc)) = Inr (pos, w, d)"
    and h': "handles_ok ((tryRotate bc)\<lparr>activeWal := w, dir := d\<rparr>)"
    and pres: "\<forall>p rec. read_entry bc p = Inr rec
            \<longrightarrow> read_entry ((tryRotate bc)\<lparr>activeWal := w, dir := d\<rparr>) p = Inr rec"
    and new: "read_entry ((tryRotate bc)\<lparr>activeWal := w, dir := d\<rparr>) pos =
          (case DecodeRecord (Encode (NewRecord k v)) of
             Inl e \<Rightarrow> Inl (wrap_err (ErrDecodeAt (Offset pos)) e) | Inr rec \<Rightarrow> Inr rec)"
    by blast
  let ?bc' = "(tryRotate bc)\<lparr>activeWal := w, dir := d,
                 memTable := BTreeIndex_Put k pos (memTable (tryRotate bc))\<rparr>"
  have p: "Put (Some k) v bc = (None, ?bc')"
    by (simp add: Put_def Let_def Wal_Write_def ww)
  have "read_entry ?bc' pos = Inr (NewRecord k v)"
    using new by (simp add: DecodeRecord_NewRecord [OF ck cv])
  moreover have "handles_ok ?bc'" using h' by simp
  moreover have "memTable ?bc' = ReplaceOrInsert k pos (memTable bc)"
    by (simp add: BTreeIndex_Put_def ts(5))
  moreover have "\<forall>p rec. read_entry bc p = Inr rec \<longrightarrow> read_entry ?bc' p = Inr rec"
    using pres by simp
  moreover have "conf ?bc' = conf bc" "txnId ?bc' = txnId bc"
    "unat (fileId ?bc') \<le> unat (fileId bc) + 1"
    using ts(4,6,7) by simp_all
  ultimately show ?thesis using p by blast
qed

lemma Delete_step:
  assumes h: "handles_ok bc" and nw: "unat (fileId bc) + 1 < 4294967296"
    and sz: "unat (MaxFileSize (conf bc)) + 115343373 < 4294967296"
    and ck: "length k \<le> 10485760"
  shows "\<exists>bc'. Delete (Some k) bc = (None, bc') \<and> handles_ok bc'
     \<and> memTable bc' = BTreeIndex_Delete k (memTable bc)
     \<and> (\<forall>p rec. read_entry bc p = Inr rec \<longrightarrow> read_entry bc' p = Inr rec)
     \<and> conf bc' = conf bc \<and> txnId bc' = txnId bc
     \<and> unat (fileId bc') \<le> unat (fileId bc) + 1"
proof (cases "map_of (memTable bc) k")
  case None
  then have "BTreeIndex_Delete k (memTable bc) = memTable bc"
    by (induction "memTable bc") (auto simp: BTreeIndex_Delete_def filter_id_conv
          dest: map_of_SomeD weak_map_of_SomeI split: if_splits)
  with None h show ?thesis
    by (simp add: Delete_def BTreeIndex_Get_def bytes_of_def)
next
  case (Some pos0)
  have sz': "unat (MaxFileSize (conf bc)) + length (Encode (NewRecord k None)) < 4294967296"
    using sz ck by (simp add: length_Encode_NewRecord bytes_of_def)
  note ts = tryRotate_step [OF h nw]
  from write_step [OF h nw sz'] obtain pos w d where
    ww: "Wal_write (NewRecord k None) (activeWal (tryRotate bc)) (dir (tryRotate bc))
           = Inr (pos, w, d)"
    and h': "handles_ok ((tryRotate bc)\<lparr>activeWal := w, dir := d\<rparr>)"
    and pres: "\<forall>p rec. read_entry bc p = Inr rec
            \<longrightarrow> read_entry ((tryRotate bc)\<lparr>activeWal := w, dir := d\<rparr>) p = Inr rec"
    by blast
  let ?bc' = "(tryRotate bc)\<lparr>activeWal := w, dir := d,
                 memTable := BTreeIndex_Delete k (memTable (tryRotate bc))\<rparr>"
  have p: "Delete (Some k) bc = (None, ?bc')"
    by (simp add: Delete_def Let_def Wal_Write_def ww Some BTreeIndex_Get_def bytes_of_def)
  have "handles_ok ?bc'" using h' by simp
  moreover have "memTable ?bc' = BTreeIndex_Delete k (memTable bc)"
    by (simp add: ts(5))
  moreover have "\<forall>p rec. read_entry bc p = Inr rec \<longrightarrow> read_entry ?bc' p = Inr rec"
    using pres by simp
  moreover have "conf ?bc' = conf bc" "txnId ?bc' = txnId bc"
    "unat (fileId ?bc') \<le> unat (fileId bc) + 1"
    using ts(4,6,7) by simp_all
  ultimately show ?thesis using p by blast
qed

lemma NewBitcask_empty:
  "NewBitcask c (empty_dir l) =
     Inr \<lparr>conf = c, activeWal = \<lparr>wal_fileId = 0, wal_offset = 0\<rparr>, oldWal = (\<lambda>_. None),
          memTable = [], fileId = 0, fileIds = [], txnId = 0, flock = flock_New,
          dir = \<lparr>wal_files = [(0, [])], hint_file = None, lock_held = l\<rparr>\<rparr>"
  by (simp add: NewBitcask_def empty_dir_def Bitcask_LoadHint_def loadWalFiles_def NewWal_def)

lemma store_inv_empty:
  "store_inv (\<lambda>_. None)
     \<lparr>conf = c, activeWal = \<lparr>wal_fileId = 0, wal_offset = 0\<rparr>, oldWal = (\<lambda>_. None),
          memTable = [], fileId = 0, fileIds = [], txnId = 0, flock = flock_New,
          dir = \<lparr>wal_files = [(0, [])], hint_file = None, lock_held = l\<rparr>\<rparr>"
  by (simp add: store_inv_def handles_ok_def)

lemma run_op_inv:
  assumes inv: "store_inv m bc" and nw: "unat (fileId bc) + 1 < 4294967296"
    and sz: "unat (MaxFileSize (conf bc)) + 115343373 < 4294967296"
    and caps: "op_in_caps x"
  shows "fst (run_op x bc) = None \<and> store_inv (claimed_op m x) (snd (run_op x bc))
     \<and> conf (snd (run_op x bc)) = conf bc
     \<and> unat (fileId (snd (run_op x bc))) \<le> unat (fileId bc) + 1"
proof (cases x)
  case (OpPut k v)
  from inv have h: "handles_ok bc" and so: "sorted_wrt item_Less (map fst (memTable bc))"
    and ent: "\<And>k. case m k of
               None \<Rightarrow> map_of (memTable bc) k = None
             | Some v \<Rightarrow> (\<exists>pos. map_of (memTable bc) k = Some pos
                            \<and> read_entry bc pos = Inr (NewRecord k v))"
    by (auto simp: store_inv_def)
  from caps OpPut have ck: "length k \<le> 10485760" and cv: "length (bytes_of v) \<le> 104857600"
    by auto
  from Put_step [OF h nw sz ck cv] obtain pos bc' where
    p: "Put (Some k) v bc = (None, bc')" and h': "handles_ok bc'"
    and mt: "memTable bc' = ReplaceOrInsert k pos (memTable bc)"
    and pres: "\<And>p rec. read_entry bc p = Inr rec \<Longrightarrow> read_entry bc' p = Inr rec"
    and new: "read_entry bc' pos = Inr (NewRecord k v)"
    and c': "conf bc' = conf bc" and f': "unat (fileId bc') \<le> unat (fileId bc) + 1"
    by blast
  have "case (m(k \<mapsto> v)) k' of
               None \<Rightarrow> map_of (memTable bc') k' = None
             | Some v \<Rightarrow> (\<exists>pos. map_of (memTable bc') k' = Some pos
                            \<and> read_entry bc' pos = Inr (NewRecord k' v))" for k'
    using ent [of k'] new pres by (auto simp: mt split: option.splits)
  then have "store_inv (m(k \<mapsto> v)) bc'"
    using h' so by (simp add: store_inv_def mt sorted_ReplaceOrInsert)
  with p c' f' OpPut show ?thesis by simp
next
  case (OpDelete k)
  from inv have h: "handles_ok bc" and so: "sorted_wrt item_Less (map fst (memTable bc))"
    and ent: "\<And>k. case m k of
               None \<Rightarrow> map_of (memTable bc) k = None
             | Some v \<Rightarrow> (\<exists>pos. map_of (memTable bc) k = Some pos
                            \<and> read_entry bc pos = Inr (NewRecord k v))"
    by (auto simp: store_inv_def)
  from caps OpDelete have ck: "length k \<le> 10485760" by auto
  from Delete_step [OF h nw sz ck] obtain bc' where
    p: "Delete (Some k) bc = (None, bc')" and h': "handles_ok bc'"
    and mt: "memTable bc' = BTreeIndex_Delete k (memTable bc)"
    and pres: "\<And>p rec. read_entry bc p = Inr rec \<Longrightarrow> read_entry bc' p = Inr rec"
    and c': "conf bc' = conf bc" and f': "unat (fileId bc') \<le> unat (fileId bc) + 1"
    by blast
  have "case (m(k := None)) k' of
               None \<Rightarrow> map_of (memTable bc') k' = None
             | Some v \<Rightarrow> (\<exists>pos. map_of (memTable bc') k' = Some pos
                            \<and> read_entry bc' pos = Inr (NewRecord k' v))" for k'
    using ent [of k'] pres by (auto simp: mt split: option.splits)
  then have "store_inv (m(k := None)) bc'"
    using h' so by (simp add: store_inv_def mt sorted_BTreeIndex_Delete)
  with p c' f' OpDelete show ?thesis by simp
qed

lemma run_ops_inv:
  assumes "store_inv m bc" and "unat (fileId bc) + length ops < 4294967296"
    and "unat (MaxFileSize (conf bc)) + 115343373 < 4294967296"
    and "\<forall>x \<in> set ops. op_in_caps x"
  shows "(\<forall>e \<in> set (fst (run_ops ops bc)). e = None)
     \<and> store_inv (foldl claimed_op m ops) (snd (run_ops ops bc))
     \<and> conf (snd (run_ops ops bc)) = conf bc"
  using assms
proof (induction ops arbitrary: m bc)
  case Nil
  then show ?case by simp
next
  case (Cons x xs)
  from Cons.prems have nw: "unat (fileId bc) + 1 < 4294967296" by simp
  from Cons.prems have cx: "op_in_caps x" by simp
  note st = run_op_inv [OF Cons.prems(1) nw Cons.prems(3) cx]
  let ?bc = "snd (run_op x bc)"
  have "unat (fileId ?bc) + length xs < 4294967296" using st Cons.prems(2) by simp
  moreover have "unat (MaxFileSize (conf ?bc)) + 115343373 < 4294967296"
    using st Cons.prems(3) by simp
  moreover have "\<forall>x \<in> set xs. op_in_caps x" using Cons.prems(4) by simp
  ultimately have ih: "(\<forall>e \<in> set (fst (run_ops xs ?bc)). e = None)
     \<and> store_inv (foldl claimed_op (claimed_op m x) xs) (snd (run_ops xs ?bc))
     \<and> conf (snd (run_ops xs ?bc)) = conf ?bc"
    using Cons.IH [of "claimed_op m x" ?bc] st by blast
  obtain e bc1 where r1: "run_op x bc = (e, bc1)" by (cases "run_op x bc")
  obtain es bc2 where r2: "run_ops xs bc1 = (es, bc2)" by (cases "run_ops xs bc1")
  from st ih r1 r2 show ?case by simp
qed

lemma read_entry_InrD:
  "read_entry bc pos = Inr rec \<Longrightarrow> \<exists>w. targetWal bc pos = Inr w \<and> ReadPos pos w (dir bc) = Inr rec"
  by (auto simp: read_entry_def split: sum.splits)

lemma get_read_entry:
  assumes "map_of (memTable bc) k = Some pos" and "read_entry bc pos = Inr rec"
  shows "get (Some k) bc =
     (if RecordType rec = RecordTypeDelete then Inl ErrKeyHasDeleted else Inr (Value rec))"
proof -
  from read_entry_InrD [OF assms(2)] obtain w where
    "targetWal bc pos = Inr w" "ReadPos pos w (dir bc) = Inr rec" by blast
  with assms(1) show ?thesis by (simp add: get_def BTreeIndex_Get_def)
qed

lemma store_inv_NoneD: "store_inv m bc \<Longrightarrow> m k = None \<Longrightarrow> map_of (memTable bc) k = None"
proof -
  assume "store_inv m bc" and n: "m k = None"
  then have "case m k of None \<Rightarrow> map_of (memTable bc) k = None
             | Some v \<Rightarrow> (\<exists>pos. map_of (memTable bc) k = Some pos
                            \<and> read_entry bc pos = Inr (NewRecord k v))"
    unfolding store_inv_def by blast
  with n show ?thesis by simp
qed

lemma store_inv_SomeD:
  "store_inv m bc \<Longrightarrow> m k = Some v \<Longrightarrow>
     \<exists>pos. map_of (memTable bc) k = Some pos \<and> read_entry bc pos = Inr (NewRecord k v)"
proof -
  assume "store_inv m bc" and n: "m k = Some v"
  then have "case m k of None \<Rightarrow> map_of (memTable bc) k = None
             | Some v \<Rightarrow> (\<exists>pos. map_of (memTable bc) k = Some pos
                            \<and> read_entry bc pos = Inr (NewRecord k v))"
    unfolding store_inv_def by blast
  with n show ?thesis by simp
qed

lemma get_store_inv:
  assumes "store_inv m bc"
  shows "get (Some k) bc =
     (case m k of None \<Rightarrow> Inl ErrKeyNotFound
      | Some None \<Rightarrow> Inl ErrKeyHasDeleted
      | Some (Some v) \<Rightarrow> Inr v)"
proof (cases "m k")
  case None
  from store_inv_NoneD [OF assms None] None show ?thesis
    by (simp add: get_def BTreeIndex_Get_def)
next
  case (Some v)
  from store_inv_SomeD [OF assms Some] obtain pos where "map_of (memTable bc) k = Some pos"
    "read_entry bc pos = Inr (NewRecord k v)" by blast
  from get_read_entry [OF this] Some show ?thesis
    by (simp add: NewRecord_def newRecord_def split: option.splits)
qed

section \<open>Put, delete and get\<close>

lemma fresh_store_eq:
  "NewBitcask c (empty_dir l) = Inr (fresh_store c l)"
  by (simp add: fresh_store_def NewBitcask_empty)

lemma fresh_store_inv: "store_inv (\<lambda>_. None) (fresh_store c l)"
  by (simp add: fresh_store_def NewBitcask_empty store_inv_empty)

lemma fresh_store_fields: "fileId (fresh_store c l) = 0" "conf (fresh_store c l) = c"
  by (simp_all add: fresh_store_def NewBitcask_empty)

lemma run_ops_fresh:
  assumes "\<forall>x \<in> set ops. op_in_caps x" and "length ops < 4294967296"
    and "unat (MaxFileSize c) + 115343373 < 4294967296"
  shows "(\<forall>e \<in> set (fst (run_ops ops (fresh_store c l))). e = None)"
    and "store_inv (claimed_store ops) (snd (run_ops ops (fresh_store c l)))"
  using run_ops_inv [OF fresh_store_inv, of c l ops] assms
  by (simp_all add: fresh_store_fields claimed_store_def)

lemma Get_store_inv:
  "store_inv m bc \<Longrightarrow>
     Get (Some k) bc
       = Inr (case m k of Some (Some v) \<Rightarrow> (Some v, True) | _ \<Rightarrow> (None, False))"
  by (simp add: Get_def get_store_inv is_panic_def split: option.splits)

text \<open>
  C1 (as amended). On an engine opened on an empty directory, every call of a sequence
  of puts and deletes with keys and values within the size caps succeeds, and a lookup
  after the sequence returns the value of the latest put of the key with \<open>true\<close> when
  that value is not \<open>nil\<close> and no delete of the key came after it; it returns
  \<open>(nil, false)\<close> for a key that was never put, after a later delete, and when the
  latest put of the key had a \<open>nil\<close> value. The sequence is shorter than \<open>2^32\<close> calls
  and the rotation threshold leaves room for one record below \<open>2^32\<close> bytes, so that no
  file id or offset wraps.
\<close>

theorem get_after_puts_and_deletes:
  assumes "\<forall>x \<in> set ops. op_in_caps x" and "length ops < 4294967296"
    and "unat (MaxFileSize c) + 115343373 < 4294967296"
  shows "NewBitcask c (empty_dir l) = Inr (fresh_store c l)
     \<and> (\<forall>e \<in> set (fst (run_ops ops (fresh_store c l))). e = None)
     \<and> Get (Some k) (snd (run_ops ops (fresh_store c l))) = Inr (engine_get ops k)"
  using run_ops_fresh [OF assms] fresh_store_eq
  by (simp add: Get_store_inv engine_get_def)

theorem get_after_puts_and_deletes_witness:
  "NewBitcask \<lparr>MaxFileSize = 100, LoadHint = True, BatchSize = 200\<rparr> (empty_dir False)
     = Inr (fresh_store \<lparr>MaxFileSize = 100, LoadHint = True, BatchSize = 200\<rparr> False)
   \<and> Get (Some [3])
       (snd (run_ops [OpPut [1] (Some [2]), OpPut [3] (Some [4]), OpDelete [1],
                      OpPut [3] (Some [5, 6])]
              (fresh_store \<lparr>MaxFileSize = 100, LoadHint = True, BatchSize = 200\<rparr> False)))
     = Inr (Some [5, 6], True)
   \<and> Get (Some [1])
       (snd (run_ops [OpPut [1] (Some [2]), OpPut [3] (Some [4]), OpDelete [1],
                      OpPut [3] (Some [5, 6])]
              (fresh_store \<lparr>MaxFileSize = 100, LoadHint = True, BatchSize = 200\<rparr> False)))
     = Inr (None, False)"
  using get_after_puts_and_deletes
          [of "[OpPut [1] (Some [2]), OpPut [3] (Some [4]), OpDelete [1], OpPut [3] (Some [5, 6])]"
              "\<lparr>MaxFileSize = 100, LoadHint = True, BatchSize = 200\<rparr>" False "[3]"]
        get_after_puts_and_deletes
          [of "[OpPut [1] (Some [2]), OpPut [3] (Some [4]), OpDelete [1], OpPut [3] (Some [5, 6])]"
              "\<lparr>MaxFileSize = 100, LoadHint = True, BatchSize = 200\<rparr>" False "[1]"]
  by (simp add: engine_get_def claimed_store_def bytes_of_def)

text \<open>
  C1 as stated fails for a \<open>nil\<close> value: after \<open>put(k, nil)\<close> on a fresh engine the
  lookup of \<open>k\<close> returns \<open>(nil, false)\<close>, where the latest put of \<open>k\<close> has the value
  \<open>nil\<close> and no delete follows, so that the lookup is said to return \<open>(nil, true)\<close>.
\<close>

theorem get_after_put_nil_counterexample:
  "Get (Some [107])
     (snd (run_ops [OpPut [107] None]
            (fresh_store \<lparr>MaxFileSize = 100, LoadHint = True, BatchSize = 200\<rparr> False)))
     = Inr (None, False)
   \<and> claimed_get [OpPut [107] None] [107] = (None, True)"
proof -
  have "store_inv (claimed_store [OpPut [107] None])
          (snd (run_ops [OpPut [107] None]
            (fresh_store \<lparr>MaxFileSize = 100, LoadHint = True, BatchSize = 200\<rparr> False)))"
    by (rule run_ops_fresh) (simp_all add: bytes_of_def)
  from Get_store_inv [OF this, of "[107]"] show ?thesis
    by (simp add: claimed_get_def claimed_store_def)
qed

lemma store_inv_entries:
  assumes inv: "store_inv m bc" and e: "(k, pos) \<in> set (memTable bc)"
  shows "\<exists>v. m k = Some v \<and> read_entry bc pos = Inr (NewRecord k v)"
proof -
  from inv have "distinct (map fst (memTable bc))"
    by (simp add: store_inv_def sorted_distinct_keys)
  with e have mo: "map_of (memTable bc) k = Some pos" by simp
  show ?thesis
  proof (cases "m k")
    case None
    from store_inv_NoneD [OF inv None] mo show ?thesis by simp
  next
    case (Some v)
    from store_inv_SomeD [OF inv Some] mo Some show ?thesis by auto
  qed
qed

section \<open>The record codec and positions\<close>

text \<open>
  C8 (as amended). For every record within the size caps, decoding its encoding gives
  an equal record when its type is not one of the two transactional data types; for
  \<open>TxnPut\<close> and \<open>TxnDelete\<close> it gives the record with the four-byte transaction id
  cut off the key (and panics in \<open>DecodeTxnId\<close> when the key has fewer than four
  bytes). For the location that an append returns, on a handle whose offset is the
  size of its file and with the file staying below \<open>2^32\<close> bytes, \<open>ReadPos\<close> gives
  the same result.
\<close>

theorem codec_roundtrip:
  assumes "length (Key r) \<le> 10485760" and "length (Value r) \<le> 104857600"
    and "map_of (wal_files d) (wal_fileId w) = Some content"
    and "unat (wal_offset w) = length content"
    and "length content + length (Encode r) < 4294967296"
  shows "DecodeRecord (Encode r) = decoded r
     \<and> (\<exists>pos w' d'. Wal_write r w d = Inr (pos, w', d')
           \<and> ReadPos pos w' d' =
               (case decoded r of Inl e \<Rightarrow> Inl (wrap_err (ErrDecodeAt (Offset pos)) e)
                | Inr rec \<Rightarrow> Inr rec))"
proof -
  have dec: "DecodeRecord (Encode r) = decoded r"
    using DecodeRecord_Encode [OF assms(1,2)]
    by (simp add: decoded_def strip_txn_key_def is_txn_data_def)
  from ReadPos_written [OF assms(3,4,5)] dec show ?thesis by (auto split: sum.splits)
qed

theorem codec_roundtrip_witness:
  "DecodeRecord (Encode \<lparr>RecordType = RecordTypeTxnPut, Key = EncodeTxnId 7 [107], Value = [118]\<rparr>)
     = Inr \<lparr>RecordType = RecordTypeTxnPut, Key = [107], Value = [118]\<rparr>
   \<and> (\<exists>pos w' d'.
        Wal_write \<lparr>RecordType = RecordTypeTxnPut, Key = EncodeTxnId 7 [107], Value = [118]\<rparr>
          \<lparr>wal_fileId = 0, wal_offset = 0\<rparr>
          \<lparr>wal_files = [(0, [])], hint_file = None, lock_held = False\<rparr> = Inr (pos, w', d')
        \<and> ReadPos pos w' d' = Inr \<lparr>RecordType = RecordTypeTxnPut, Key = [107], Value = [118]\<rparr>)"
  using codec_roundtrip
          [of "\<lparr>RecordType = RecordTypeTxnPut, Key = EncodeTxnId 7 [107], Value = [118]\<rparr>"
              "\<lparr>wal_files = [(0, [])], hint_file = None, lock_held = False\<rparr>"
              "\<lparr>wal_fileId = 0, wal_offset = 0\<rparr>" "[]"]
  by (simp add: decoded_def strip_txn_key_def is_txn_data_def EncodeTxnId_def length_Encode)

text \<open>
  C8 as stated fails for a \<open>TxnPut\<close> record: decoding its encoding gives a record
  with a shorter key.
\<close>

theorem codec_roundtrip_counterexample:
  "DecodeRecord (Encode \<lparr>RecordType = RecordTypeTxnPut, Key = [0, 0, 0, 7, 107], Value = [118]\<rparr>)
     \<noteq> Inr \<lparr>RecordType = RecordTypeTxnPut, Key = [0, 0, 0, 7, 107], Value = [118]\<rparr>"
  by (subst DecodeRecord_Encode) simp_all

section \<open>Errors of a lookup\<close>

lemma NewBitcask_stale_hint:
  "NewBitcask c stale_hint_dir =
     Inr \<lparr>conf = c, activeWal = \<lparr>wal_fileId = 6, wal_offset = 0\<rparr>, oldWal = (\<lambda>_. None),
          memTable = [([107], \<lparr>FileId = 5, Offset = 0, Length = 15\<rparr>)], fileId = 6,
          fileIds = [], txnId = 0, flock = flock_New,
          dir = stale_hint_dir\<lparr>wal_files := [(6, [])]\<rparr>\<rparr>"
  by (simp add: NewBitcask_def stale_hint_dir_def Bitcask_LoadHint_def hintEntry_def
        loadWalFiles_def NewWal_def BTreeIndex_Put_def)

text \<open>
  C5 (as amended). The internal \<open>get\<close> returns an error for every failure: the
  sentinel \<open>ErrKeyNotFound\<close> for a key without index entry, \<open>ErrKeyHasDeleted\<close> for
  a tombstone, the file-not-found error for a missing segment, and the wrapped error of
  \<open>ReadPos\<close> for a read out of range or a record that does not decode. The public
  \<open>Get\<close> has no error result: it returns the value with \<open>true\<close> when \<open>get\<close>
  succeeds and \<open>(nil, false)\<close> for every error of \<open>get\<close>.
\<close>

theorem Get_collapses_errors:
  "(get key bc = Inr v \<longrightarrow> Get key bc = Inr (Some v, True))
   \<and> (get key bc = Inl e \<and> \<not> is_panic e \<longrightarrow> Get key bc = Inr (None, False))
   \<and> (get key bc = Inl e \<and> is_panic e \<longrightarrow> Get key bc = Inl e)
   \<and> (key = None \<longrightarrow> get key bc = Inl ErrKeyNil)
   \<and> (key = Some k \<and> map_of (memTable bc) k = None \<longrightarrow> get key bc = Inl ErrKeyNotFound)
   \<and> (key = Some k \<and> map_of (memTable bc) k = Some pos \<and> targetWal bc pos = Inl e
        \<longrightarrow> get key bc = Inl e)
   \<and> (key = Some k \<and> map_of (memTable bc) k = Some pos \<and> targetWal bc pos = Inr w
        \<and> ReadPos pos w (dir bc) = Inl e
        \<longrightarrow> get key bc = Inl (wrap_err (ErrReadPos (FileId pos) (Offset pos)) e))
   \<and> (key = Some k \<and> map_of (memTable bc) k = Some pos \<and> targetWal bc pos = Inr w
        \<and> ReadPos pos w (dir bc) = Inr rec
        \<longrightarrow> get key bc = (if RecordType rec = RecordTypeDelete then Inl ErrKeyHasDeleted
                           else Inr (Value rec)))"
  by (simp add: Get_def get_def BTreeIndex_Get_def wrap_err_def)

theorem Get_collapses_errors_witness:
  "get (Some [107]) (projr (NewBitcask \<lparr>MaxFileSize = 100, LoadHint = True, BatchSize = 200\<rparr>
                              stale_hint_dir)) = Inl (ErrFileNotFound 5)
   \<and> Get (Some [107]) (projr (NewBitcask \<lparr>MaxFileSize = 100, LoadHint = True, BatchSize = 200\<rparr>
                              stale_hint_dir)) = Inr (None, False)
   \<and> get (Some [1]) (projr (NewBitcask \<lparr>MaxFileSize = 100, LoadHint = True, BatchSize = 200\<rparr>
                              stale_hint_dir)) = Inl ErrKeyNotFound"
  using Get_collapses_errors
          [of "Some [107]"
              "projr (NewBitcask \<lparr>MaxFileSize = 100, LoadHint = True, BatchSize = 200\<rparr>
                              stale_hint_dir)" "[]" "ErrFileNotFound 5" "[107]"
              "\<lparr>FileId = 5, Offset = 0, Length = 15\<rparr>"]
        Get_collapses_errors
          [of "Some [1]"
              "projr (NewBitcask \<lparr>MaxFileSize = 100, LoadHint = True, BatchSize = 200\<rparr>
                              stale_hint_dir)" "[]" "ErrFileNotFound 5" "[1]"]
  by (simp add: NewBitcask_stale_hint targetWal_def is_panic_def)

text \<open>
  C5 as stated fails on an index entry whose segment is missing: \<open>get\<close> fails with
  the file-not-found error, and \<open>Get\<close> reports the key as not found.
\<close>

theorem Get_hides_missing_segment_counterexample:
  "get (Some [107]) (projr (NewBitcask \<lparr>MaxFileSize = 100, LoadHint = True, BatchSize = 200\<rparr>
                              stale_hint_dir)) = Inl (ErrFileNotFound 5)
   \<and> Get (Some [107]) (projr (NewBitcask \<lparr>MaxFileSize = 100, LoadHint = True, BatchSize = 200\<rparr>
                              stale_hint_dir)) = Inr (None, False)"
  by (simp add: NewBitcask_stale_hint Get_def get_def BTreeIndex_Get_def targetWal_def
        is_panic_def)

section \<open>Committing a batch twice\<close>

lemma mp_len_nonneg: "0 \<le> mp_len b"
  by (simp add: mp_len_def split: option.splits)

lemmas eval_defs = Commit_def mp_len_def putTxnBegin_def putTxnCommit_def putTxn_def deleteTxn_def
  tryRotate_def mustRotate_def Wal_Size_def WriteTxnBegin_def WriteTxnCommit_def WriteTxn_def
  Wal_write_def NewTxnBegin_def NewTxnCommit_def NewTxnRecord_def newRecord_def
  EncodeTxnId_def length_Encode NewWal_def BTreeIndex_Put_def BTreeIndex_Get_def
  BTreeIndex_Delete_def txn_begin_def txn_commit_def Let_def

lemma batch1_eq: "batch1 = \<lparr>mp = Some [([107], Some [118])], keys = [Some [107]], b_txnId = 0\<rparr>"
  by (simp add: batch1_def Batch_Put_def NewBatch_def fresh_store_def NewBitcask_empty bytes_of_def)

lemma commit1_ok: "fst (Commit batch1 (fresh_store cfg False)) = None"
  by (simp add: batch1_eq fresh_store_def NewBitcask_empty cfg_def eval_defs bytes_of_def)

lemma commit1_conf: "conf (snd (snd (Commit batch1 (fresh_store cfg False)))) = cfg"
  by (simp add: batch1_eq fresh_store_def NewBitcask_empty cfg_def eval_defs bytes_of_def)

text \<open>
  C10. A second \<open>Commit\<close> of a batch whose \<open>Commit\<close> has succeeded returns
  \<open>nil\<close> and leaves the batch and the engine as they are (no record is appended, the
  index and the transaction id do not change), whatever the engine has done in between
  under the same configuration.
\<close>

theorem Commit_twice:
  assumes "Commit b db = (None, b1, db1)"
    and "BatchSize (conf db2) = BatchSize (conf db)"
  shows "Commit b1 db2 = (None, b1, db2)"
proof -
  from assms(1) have lt: "mp_len b < BatchSize (conf db)"
    by (auto simp: Commit_def split: if_splits)
  show ?thesis
  proof (cases "mp_len b = 0")
    case True
    with assms(1) lt have "b1 = b" by (simp add: Commit_def)
    with True lt assms(2) show ?thesis by (simp add: Commit_def)
  next
    case False
    with assms(1) lt have "mp b1 = None"
      by (auto simp: Commit_def split: prod.splits option.splits)
    then have "mp_len b1 = 0" by (simp add: mp_len_def)
    moreover have "0 < BatchSize (conf db2)"
      using lt mp_len_nonneg [of b] assms(2) by simp
    ultimately show ?thesis by (simp add: Commit_def)
  qed
qed

theorem Commit_twice_witness:
  "fst (Commit batch1 (fresh_store cfg False)) = None
   \<and> Commit (fst (snd (Commit batch1 (fresh_store cfg False))))
        (snd (snd (Commit batch1 (fresh_store cfg False))))
     = (None, fst (snd (Commit batch1 (fresh_store cfg False))),
        snd (snd (Commit batch1 (fresh_store cfg False))))"
proof -
  have "Commit batch1 (fresh_store cfg False)
          = (None, fst (snd (Commit batch1 (fresh_store cfg False))),
             snd (snd (Commit batch1 (fresh_store cfg False))))"
    using commit1_ok by (metis prod.collapse)
  from Commit_twice [OF this, of "snd (snd (Commit batch1 (fresh_store cfg False)))"]
  show ?thesis using commit1_ok commit1_conf by (simp add: fresh_store_fields)
qed

section \<open>Replay of a segment\<close>

lemma length_frame [simp]: "length (frame r c) = frame_length r"
  by (simp add: frame_def header_def frame_length_def)

lemma Encode_is_frame: "Encode r = frame r (ChecksumIEEE (header r @ Key r @ Value r))"
  by (simp add: Encode_def frame_def Let_def)

lemma frame_eq:
  "frame r c = RecordType r # PutUint32 (of_nat (length (Key r)))
     @ PutUint32 (of_nat (length (Value r))) @ Key r @ Value r @ PutUint32 c"
  by (simp add: frame_def header_def)

lemma readLoop_frame:
  assumes buf: "buffer = pre @ frame r c @ post"
    and len: "length buffer < 4294967296"
    and caps: "record_in_caps r"
  shows "readLoop fid buffer (of_nat (length pre)) st =
     (case updatedFunc r \<lparr>FileId = fid, Offset = of_nat (length pre),
                          Length = of_nat (frame_length r)\<rparr> st of
        Inl e \<Rightarrow> Inl e
      | Inr st' \<Rightarrow> readLoop fid buffer (of_nat (length pre + frame_length r)) st')"
proof -
  let ?K = "of_nat (length (Key r)) :: uint32" and ?V = "of_nat (length (Value r)) :: uint32"
  let ?o = "of_nat (length pre) :: uint32"
  let ?lp = "length pre" and ?lk = "length (Key r)" and ?lv = "length (Value r)"
  define hdr where "hdr = header r"
  have lh: "length hdr = 9" by (simp add: hdr_def header_def)
  have b: "buffer = pre @ hdr @ Key r @ Value r @ PutUint32 c @ post"
    by (simp add: buf frame_def hdr_def)
  have lb: "length buffer = ?lp + 13 + ?lk + ?lv + length post" by (simp add: b lh)
  have lk: "?lk \<le> 10485760" and lv: "?lv \<le> 104857600"
    using caps by (simp_all add: record_in_caps_def)
  have uo: "unat ?o = ?lp" using len lb by (simp add: unat_of_nat32)
  have uk: "unat ?K = ?lk" using lk by (simp add: unat_of_nat32)
  have uv: "unat ?V = ?lv" using lv by (simp add: unat_of_nat32)
  have un: "unat (of_nat (length buffer) :: uint32) = length buffer"
    using len by (simp add: unat_of_nat32)
  have u1: "unat (?o + 1) = ?lp + 1" using len lb by (simp add: unat_word_ariths uo)
  have u5: "unat (?o + 5) = ?lp + 5" using len lb by (simp add: unat_word_ariths uo)
  have u9: "unat (?o + 9) = ?lp + 9" using len lb by (simp add: unat_word_ariths uo)
  have u9k: "unat (?o + 9 + ?K) = ?lp + 9 + ?lk"
    using len lb by (simp add: unat_word_ariths uo uk)
  have u9kv: "unat (?o + 9 + ?K + ?V) = ?lp + 9 + ?lk + ?lv"
    using len lb by (simp add: unat_word_ariths uo uk uv)
  have url: "unat (9 + ?K + ?V + 4) = 13 + ?lk + ?lv"
    using lk lv by (simp add: unat_word_ariths uk uv)
  have nxt0: "?o + (9 + ?K + ?V + 4) = of_nat (?lp + 13 + ?lk + ?lv)" by simp
  have uend: "unat (?o + (9 + ?K + ?V + 4)) = ?lp + 13 + ?lk + ?lv"
    unfolding nxt0 by (rule unat_of_nat32) (use len lb in simp)
  have c1: "?o < of_nat (length buffer)"
    unfolding word_less_nat_alt uo un using lb by simp
  have c2: "\<not> of_nat (length buffer) < ?o + 9"
    unfolding word_less_nat_alt u9 un using lb by simp
  have g1: "go_slice buffer (?o + 1) (?o + 5) = Inr (PutUint32 ?K)"
    using lb by (simp add: go_slice_def word_le_nat_alt u1 u5 slice_def b hdr_def header_def)
  have g2: "go_slice buffer (?o + 5) (?o + 9) = Inr (PutUint32 ?V)"
    using lb by (simp add: go_slice_def word_le_nat_alt u5 u9 slice_def b hdr_def header_def)
  have t: "buffer ! unat ?o = RecordType r"
    by (simp add: uo b hdr_def header_def nth_append)
  have capk: "\<not> ?K > 10 * 1024 * 1024" using uk lk by (simp add: word_less_nat_alt)
  have capv: "\<not> ?V > 100 * 1024 * 1024" using uv lv by (simp add: word_less_nat_alt)
  have c3: "\<not> of_nat (length buffer) < ?o + (9 + ?K + ?V + 4)"
    unfolding word_less_nat_alt uend un using lb by simp
  have g3: "go_slice buffer (?o + 9) (?o + 9 + ?K) = Inr (Key r)"
    using lb by (simp add: go_slice_def word_le_nat_alt u9 u9k slice_def b lh)
  have g4: "go_slice buffer (?o + 9 + ?K) (?o + 9 + ?K + ?V) = Inr (Value r)"
    using lb by (simp add: go_slice_def word_le_nat_alt u9k u9kv slice_def b lh)
  have g5: "go_slice buffer (?o + 9 + ?K + ?V) (?o + (9 + ?K + ?V + 4)) = Inr (PutUint32 c)"
    unfolding go_slice_def word_le_nat_alt u9kv uend using lb by (simp add: slice_def b lh)
  have nxt: "?o + (9 + ?K + ?V + 4) = of_nat (?lp + frame_length r)"
    by (simp add: frame_length_def)
  have rl: "9 + ?K + ?V + 4 = (of_nat (frame_length r) :: uint32)"
    by (simp add: frame_length_def)
  have rec: "\<lparr>RecordType = RecordType r, Key = Key r, Value = Value r\<rparr> = r" by simp
  show ?thesis
    apply (subst readLoop.simps)
    unfolding Let_def g1 g2 sum.case Uint32_PutUint32_only g3 g4 g5 t rec
    using c1 c2 c3 capk capv
    apply (simp only: if_True if_False not_not sum.case simp_thms)
    apply (simp only: rl of_nat_add)
    done
qed

lemma readLoop_stop:
  assumes buf: "buffer = pre @ tail"
    and inc: "incomplete tail"
    and len: "length buffer + 115343373 < 4294967296"
  shows "readLoop fid buffer (of_nat (length pre)) st = Inr (of_nat (length pre), st)"
proof -
  let ?o = "of_nat (length pre) :: uint32"
  let ?lp = "length pre"
  have lb: "length buffer = ?lp + length tail" by (simp add: buf)
  have uo: "unat ?o = ?lp" using len lb by (simp add: unat_of_nat32)
  have un: "unat (of_nat (length buffer) :: uint32) = length buffer"
    using len by (simp add: unat_of_nat32)
  have u1: "unat (?o + 1) = ?lp + 1" using len lb by (simp add: unat_word_ariths uo)
  have u5: "unat (?o + 5) = ?lp + 5" using len lb by (simp add: unat_word_ariths uo)
  have u9: "unat (?o + 9) = ?lp + 9" using len lb by (simp add: unat_word_ariths uo)
  show ?thesis
  proof (cases "length tail < 9")
    case True
    have "\<not> ?o < of_nat (length buffer) \<or> of_nat (length buffer) < ?o + 9"
      unfolding word_less_nat_alt uo un u9 using lb True by simp
    then show ?thesis by (subst readLoop.simps) (auto simp: Let_def)
  next
    case False
    let ?K = "Uint32 (slice tail 1 5)" and ?V = "Uint32 (slice tail 5 9)"
    have c1: "?o < of_nat (length buffer)"
      unfolding word_less_nat_alt uo un using lb False by (cases tail) simp_all
    have c2: "\<not> of_nat (length buffer) < ?o + 9"
      unfolding word_less_nat_alt u9 un using lb False by simp
    have g1: "go_slice buffer (?o + 1) (?o + 5) = Inr (slice tail 1 5)"
      unfolding go_slice_def word_le_nat_alt u1 u5 using lb False
      by (simp add: slice_def buf)
    have g2: "go_slice buffer (?o + 5) (?o + 9) = Inr (slice tail 5 9)"
      unfolding go_slice_def word_le_nat_alt u5 u9 using lb False
      by (simp add: slice_def buf)
    show ?thesis
    proof (cases "?K > 10 * 1024 * 1024 \<or> ?V > 100 * 1024 * 1024")
      case True
      then show ?thesis
        apply (subst readLoop.simps)
        unfolding Let_def g1 g2 sum.case
        using c1 c2 by simp
    next
      case caps: False
      then have k: "unat ?K \<le> 10485760" and v: "unat ?V \<le> 104857600"
        by (simp_all add: word_less_nat_alt not_less)
      from inc False caps have big: "13 + unat ?K + unat ?V > length tail"
        by (auto simp: incomplete_def)
      have url: "unat (9 + ?K + ?V + 4) = 13 + unat ?K + unat ?V"
        using k v by (simp add: unat_word_ariths)
      have "unat (?o + (9 + ?K + ?V + 4)) = ?lp + (13 + unat ?K + unat ?V)"
        using k v len lb unat_word_ariths(1) [of ?o "9 + ?K + ?V + 4"]
        by (simp only: url uo) simp
      then have c3: "of_nat (length buffer) < ?o + (9 + ?K + ?V + 4)"
        unfolding word_less_nat_alt un using lb big by simp
      show ?thesis
        apply (subst readLoop.simps)
        unfolding Let_def g1 g2 sum.case
        using c1 c2 c3 caps by simp
    qed
  qed
qed

lemma readLoop_frames:
  assumes "list_all (\<lambda>rc. record_in_caps (fst rc)) rcs"
    and "incomplete tail"
    and "length (pre @ concat (map (\<lambda>rc. frame (fst rc) (snd rc)) rcs) @ tail) + 115343373
           < 4294967296"
  shows "readLoop fid (pre @ concat (map (\<lambda>rc. frame (fst rc) (snd rc)) rcs) @ tail)
           (of_nat (length pre)) st =
     (case replay_records fid (length pre) (map fst rcs) st of
        Inl e \<Rightarrow> Inl e
      | Inr st' \<Rightarrow>
          Inr (of_nat (length pre + length (concat (map (\<lambda>rc. frame (fst rc) (snd rc)) rcs))),
               st'))"
  using assms
proof (induction rcs arbitrary: pre st)
  case Nil
  then show ?case using readLoop_stop [of "pre @ tail" pre tail fid st] by simp
next
  case (Cons rc rcs)
  let ?rest = "concat (map (\<lambda>rc. frame (fst rc) (snd rc)) rcs)"
  let ?buf = "pre @ frame (fst rc) (snd rc) @ ?rest @ tail"
  have buf: "pre @ concat (map (\<lambda>rc. frame (fst rc) (snd rc)) (rc # rcs)) @ tail = ?buf"
    by simp
  have len: "length ?buf < 4294967296" using Cons.prems(3) by simp
  have caps: "record_in_caps (fst rc)" using Cons.prems(1) by simp
  note step = readLoop_frame [of ?buf pre "fst rc" "snd rc" "?rest @ tail", OF _ len caps, of fid st]
  have ih: "readLoop fid ((pre @ frame (fst rc) (snd rc)) @ ?rest @ tail)
              (of_nat (length (pre @ frame (fst rc) (snd rc)))) st' =
     (case replay_records fid (length (pre @ frame (fst rc) (snd rc))) (map fst rcs) st' of
        Inl e \<Rightarrow> Inl e
      | Inr st'' \<Rightarrow> Inr (of_nat (length (pre @ frame (fst rc) (snd rc)) + length ?rest), st''))"
    for st'
    using Cons.prems by (intro Cons.IH) simp_all
  show ?case
    unfolding buf
    apply (subst step)
     apply simp
    using ih
    apply (auto split: sum.splits simp: add.assoc)
    done
qed

lemma incomplete_Nil [simp]: "incomplete []"
  by (simp add: incomplete_def)

lemma ReadAll_frames:
  assumes "map_of (wal_files d) (wal_fileId w) =
             Some (concat (map (\<lambda>rc. frame (fst rc) (snd rc)) rcs) @ tail)"
    and "list_all (\<lambda>rc. record_in_caps (fst rc)) rcs"
    and "incomplete tail"
    and "length (concat (map (\<lambda>rc. frame (fst rc) (snd rc)) rcs) @ tail) + 115343373
           < 4294967296"
  shows "ReadAll w d mt txn =
     (case replay_records (wal_fileId w) 0 (map fst rcs) (replay0 mt txn) of
        Inl e \<Rightarrow> Inl e
      | Inr st \<Rightarrow>
          Inr (w\<lparr>wal_offset :=
                   of_nat (length (concat (map (\<lambda>rc. frame (fst rc) (snd rc)) rcs)))\<rparr>,
               r_memTable st, dbTxnId st))"
  using readLoop_frames [of rcs tail "[]" "wal_fileId w" "replay0 mt txn"] assms
  by (auto simp: ReadAll_def replay0_def split: sum.splits)

lemmas put_defs = Put_def Delete_def tryRotate_def mustRotate_def Wal_Size_def Wal_Write_def
  Wal_write_def length_Encode NewWal_def BTreeIndex_Put_def BTreeIndex_Get_def
  BTreeIndex_Delete_def Let_def

lemma one_put_dir_eq:
  "one_put_dir = \<lparr>wal_files = [(0, Encode put_107)], hint_file = None, lock_held = False\<rparr>"
  by (simp add: one_put_dir_def fresh_store_def NewBitcask_empty cfg_def put_defs put_107_def)

lemma ReadAll_put_107:
  "ReadAll \<lparr>wal_fileId = 0, wal_offset = 0\<rparr> one_put_dir [] 0 =
     Inr (\<lparr>wal_fileId = 0, wal_offset = 15\<rparr>,
          [([107], \<lparr>FileId = 0, Offset = 0, Length = 15\<rparr>)], 0)"
  using ReadAll_frames [of one_put_dir "\<lparr>wal_fileId = 0, wal_offset = 0\<rparr>"
          "[(put_107, ChecksumIEEE (header put_107 @ Key put_107 @ Value put_107))]" "[]" "[]" 0]
  by (simp add: one_put_dir_eq Encode_is_frame record_in_caps_def put_107_def NewRecord_def
        newRecord_def frame_length_def updatedFunc_def replay0_def BTreeIndex_Put_def)

lemma NewBitcask_one_put_LoadHint:
  "NewBitcask cfg one_put_dir =
     Inr \<lparr>conf = cfg, activeWal = \<lparr>wal_fileId = 0, wal_offset = 15\<rparr>, oldWal = (\<lambda>_. None),
          memTable = [([107], \<lparr>FileId = 0, Offset = 0, Length = 15\<rparr>)], fileId = 0,
          fileIds = [0], txnId = 0, flock = flock_New, dir = one_put_dir\<rparr>"
proof -
  have l: "LoadHint cfg" by (simp add: cfg_def)
  have d: "wal_files one_put_dir = [(0, Encode put_107)]" "hint_file one_put_dir = None"
    by (simp_all add: one_put_dir_eq)
  show ?thesis
    by (simp add: NewBitcask_def Bitcask_LoadHint_def loadWalFiles_def d l NewWal_def
          ReadAll_put_107 UpdateOffset_def length_Encode put_107_def NewRecord_def newRecord_def)
qed

lemma NewBitcask_one_put_no_LoadHint:
  "NewBitcask (cfg\<lparr>LoadHint := False\<rparr>) one_put_dir =
     Inr \<lparr>conf = cfg\<lparr>LoadHint := False\<rparr>, activeWal = \<lparr>wal_fileId = 0, wal_offset = 0\<rparr>,
          oldWal = (\<lambda>_. None), memTable = [], fileId = 0,
          fileIds = [0], txnId = 0, flock = flock_New, dir = one_put_dir\<rparr>"
proof -
  have d: "wal_files one_put_dir = [(0, Encode put_107)]" "hint_file one_put_dir = None"
    by (simp_all add: one_put_dir_eq)
  show ?thesis
    by (simp add: NewBitcask_def Bitcask_LoadHint_def loadWalFiles_def d NewWal_def)
qed

lemma Commit_cfg20:
  "Commit batch1 (fresh_store cfg20 False) =
     (None, batch1\<lparr>keys := [], mp := None\<rparr>,
      \<lparr>conf = cfg20, activeWal = \<lparr>wal_fileId = 1, wal_offset = 46\<rparr>,
       oldWal = (\<lambda>_. None)(0 \<mapsto> \<lparr>wal_fileId = 0, wal_offset = 26\<rparr>),
       memTable = [([107], \<lparr>FileId = 1, Offset = 0, Length = 19\<rparr>)], fileId = 1,
       fileIds = [0], txnId = 1, flock = flock_New,
       dir = \<lparr>wal_files = [(0, Encode txn_begin_rec),
                            (1, Encode txn_put_rec @ Encode txn_commit_rec)],
              hint_file = None, lock_held = False\<rparr>\<rparr>)"
  by (simp add: batch1_eq fresh_store_def NewBitcask_empty cfg20_def eval_defs bytes_of_def
        txn_begin_rec_def txn_put_rec_def txn_commit_rec_def)

lemma committed_eq:
  "committed =
      \<lparr>conf = cfg20, activeWal = \<lparr>wal_fileId = 1, wal_offset = 46\<rparr>,
       oldWal = (\<lambda>_. None)(0 \<mapsto> \<lparr>wal_fileId = 0, wal_offset = 26\<rparr>),
       memTable = [([107], \<lparr>FileId = 1, Offset = 0, Length = 19\<rparr>)], fileId = 1,
       fileIds = [0], txnId = 1, flock = flock_New,
       dir = \<lparr>wal_files = [(0, Encode txn_begin_rec),
                            (1, Encode txn_put_rec @ Encode txn_commit_rec)],
              hint_file = None, lock_held = False\<rparr>\<rparr>"
  by (simp add: committed_def Commit_cfg20)

lemmas rec_defs = txn_begin_rec_def txn_put_rec_def txn_commit_rec_def NewTxnBegin_def
  NewTxnRecord_def NewTxnCommit_def newRecord_def EncodeTxnId_def txn_begin_def txn_commit_def

lemma ReadAll_segment0:
  "ReadAll \<lparr>wal_fileId = 0, wal_offset = 0\<rparr> (dir committed) [] 0 =
     Inr (\<lparr>wal_fileId = 0, wal_offset = 26\<rparr>, [], 0)"
  using ReadAll_frames [of "dir committed" "\<lparr>wal_fileId = 0, wal_offset = 0\<rparr>"
          "[(txn_begin_rec,
             ChecksumIEEE (header txn_begin_rec @ Key txn_begin_rec @ Value txn_begin_rec))]"
          "[]" "[]" 0]
  by (simp add: committed_eq Encode_is_frame record_in_caps_def rec_defs
        frame_length_def updatedFunc_def replay0_def DecodeTxnId_def)

lemma ReadAll_segment1:
  "ReadAll \<lparr>wal_fileId = 1, wal_offset = 0\<rparr> (dir committed) [] 0 =
     Inr (\<lparr>wal_fileId = 1, wal_offset = 46\<rparr>, [], 0)"
  using ReadAll_frames [of "dir committed" "\<lparr>wal_fileId = 1, wal_offset = 0\<rparr>"
          "[(txn_put_rec,
             ChecksumIEEE (header txn_put_rec @ Key txn_put_rec @ Value txn_put_rec)),
            (txn_commit_rec,
             ChecksumIEEE (header txn_commit_rec @ Key txn_commit_rec @ Value txn_commit_rec))]"
          "[]" "[]" 0]
  by (simp add: committed_eq Encode_is_frame record_in_caps_def rec_defs
        frame_length_def updatedFunc_def replay0_def DecodeTxnId_def)

lemma reopen_committed:
  "NewBitcask cfg20 (dir committed) =
     Inr \<lparr>conf = cfg20, activeWal = \<lparr>wal_fileId = 1, wal_offset = 46\<rparr>,
          oldWal = (\<lambda>_. None)(0 \<mapsto> \<lparr>wal_fileId = 0, wal_offset = 26\<rparr>),
          memTable = [], fileId = 1, fileIds = [0, 1], txnId = 0, flock = flock_New,
          dir = dir committed\<rparr>"
proof -
  have l: "LoadHint cfg20" by (simp add: cfg20_def)
  have d: "wal_files (dir committed) =
             [(0, Encode txn_begin_rec), (1, Encode txn_put_rec @ Encode txn_commit_rec)]"
    "hint_file (dir committed) = None"
    by (simp_all add: committed_eq)
  have le: "length (Encode txn_begin_rec) = 26"
    "length (Encode txn_put_rec) = 19" "length (Encode txn_commit_rec) = 27"
    by (simp_all add: length_Encode rec_defs)
  show ?thesis
    by (simp add: NewBitcask_def Bitcask_LoadHint_def loadWalFiles_def d l NewWal_def
          ReadAll_segment0 ReadAll_segment1 UpdateOffset_def le)
qed

text \<open>A transaction that is not finished in its segment: once a \<open>TxnBegin\<close> record
  has been read, records other than a \<open>TxnCommit\<close> change neither the index nor the
  transaction id of the engine, so a segment that ends between the two leaves the index
  as the records before the \<open>TxnBegin\<close> made it.\<close>

lemma updatedFunc_open_transaction:
  assumes "txnFlag st" and "RecordType r \<noteq> RecordTypeTxnCommit"
    and "updatedFunc r pos st = Inr st'"
  shows "txnFlag st' \<and> r_memTable st' = r_memTable st \<and> dbTxnId st' = dbTxnId st"
  using assms
  by (auto simp: updatedFunc_def split: if_splits sum.splits prod.splits)

lemma replay_open_transaction:
  assumes "txnFlag st" and "list_all (\<lambda>r. RecordType r \<noteq> RecordTypeTxnCommit) rs"
    and "replay_records fid off rs st = Inr st'"
  shows "txnFlag st' \<and> r_memTable st' = r_memTable st \<and> dbTxnId st' = dbTxnId st"
  using assms
proof (induction rs arbitrary: st off)
  case Nil
  then show ?case by simp
next
  case (Cons r rs)
  from Cons.prems(3) obtain st1 where
    u: "updatedFunc r \<lparr>FileId = fid, Offset = of_nat off, Length = of_nat (frame_length r)\<rparr> st
          = Inr st1"
    and r: "replay_records fid (off + frame_length r) rs st1 = Inr st'"
    by (auto split: sum.splits)
  from Cons.prems(2) have c: "RecordType r \<noteq> RecordTypeTxnCommit"
    and cs: "list_all (\<lambda>r. RecordType r \<noteq> RecordTypeTxnCommit) rs" by simp_all
  from updatedFunc_open_transaction [OF Cons.prems(1) c u]
  have f1: "txnFlag st1" and m1: "r_memTable st1 = r_memTable st"
    and t1: "dbTxnId st1 = dbTxnId st" by simp_all
  from Cons.IH [OF f1 cs r] m1 t1 show ?case by simp
qed

lemma replay_records_append:
  "replay_records fid off (rs @ rs') st =
     (case replay_records fid off rs st of
        Inl e \<Rightarrow> Inl e
      | Inr st' \<Rightarrow> replay_records fid (off + sum_list (map frame_length rs)) rs' st')"
  by (induction rs arbitrary: off st) (auto simp: add.assoc split: sum.splits)

lemma replay_unfinished_transaction:
  assumes "RecordType b = RecordTypeBegin"
    and "list_all (\<lambda>r. RecordType r \<noteq> RecordTypeTxnCommit) rs"
    and "replay_records fid 0 (pre @ b # rs) st = Inr st'"
  shows "\<exists>st1. replay_records fid 0 pre st = Inr st1
            \<and> r_memTable st' = r_memTable st1 \<and> dbTxnId st' = dbTxnId st1"
proof -
  from assms(3) obtain st1 where p: "replay_records fid 0 pre st = Inr st1"
    and r: "replay_records fid (sum_list (map frame_length pre)) (b # rs) st1 = Inr st'"
    by (auto simp: replay_records_append split: sum.splits)
  let ?pos = "\<lparr>FileId = fid, Offset = of_nat (sum_list (map frame_length pre)),
               Length = of_nat (frame_length b)\<rparr>"
  from r obtain st2 where u: "updatedFunc b ?pos st1 = Inr st2"
    and r2: "replay_records fid (sum_list (map frame_length pre) + frame_length b) rs st2 = Inr st'"
    by (auto split: sum.splits)
  from u assms(1) have "txnFlag st2" and "r_memTable st2 = r_memTable st1"
    and "dbTxnId st2 = dbTxnId st1"
    by (auto simp: updatedFunc_def split: sum.splits prod.splits)
  with replay_open_transaction [OF _ assms(2) r2] p show ?thesis by simp
qed

section \<open>Checksum failures during replay\<close>

text \<open>
  C7 (as amended). During the replay of a segment a record whose CRC check fails is
  applied like any other record, and the replay goes on with the records after it: the
  result of \<open>ReadAll\<close> on a segment of complete records followed by an incomplete
  tail is the result of running the replay closure on these records in order, whatever
  checksum is stored with each of them. The replay of a file ends, keeping what it has
  applied, at a truncated header, a length above the caps or a truncated record.
\<close>

theorem replay_applies_every_frame:
  assumes "map_of (wal_files d) (wal_fileId w) =
             Some (concat (map (\<lambda>rc. frame (fst rc) (snd rc)) rcs) @ tail)"
    and "list_all (\<lambda>rc. record_in_caps (fst rc)) rcs"
    and "incomplete tail"
    and "length (concat (map (\<lambda>rc. frame (fst rc) (snd rc)) rcs) @ tail) + 115343373
           < 4294967296"
  shows "ReadAll w d mt txn =
     (case replay_records (wal_fileId w) 0 (map fst rcs) (replay0 mt txn) of
        Inl e \<Rightarrow> Inl e
      | Inr st \<Rightarrow>
          Inr (w\<lparr>wal_offset :=
                   of_nat (length (concat (map (\<lambda>rc. frame (fst rc) (snd rc)) rcs)))\<rparr>,
               r_memTable st, dbTxnId st))"
  using assms by (rule ReadAll_frames)

theorem replay_applies_every_frame_witness:
  "ReadAll \<lparr>wal_fileId = 0, wal_offset = 0\<rparr>
     (seg_dir (frame put_1 (bad_crc put_1) @ frame put_2 (good_crc put_2) @ [0, 0, 0])) [] 0
   = Inr (\<lparr>wal_fileId = 0, wal_offset = 30\<rparr>,
          [([1], \<lparr>FileId = 0, Offset = 0, Length = 15\<rparr>),
           ([2], \<lparr>FileId = 0, Offset = 15, Length = 15\<rparr>)], 0)"
  using replay_applies_every_frame
          [of "seg_dir (frame put_1 (bad_crc put_1) @ frame put_2 (good_crc put_2) @ [0, 0, 0])"
              "\<lparr>wal_fileId = 0, wal_offset = 0\<rparr>"
              "[(put_1, bad_crc put_1), (put_2, good_crc put_2)]" "[0, 0, 0]" "[]" 0]
  by (simp add: seg_dir_def record_in_caps_def put_1_def put_2_def incomplete_def
        frame_length_def updatedFunc_def replay0_def BTreeIndex_Put_def item_Less_def)

text \<open>
  C7 as stated fails: in a segment of two put records where the stored checksum of the
  first is wrong, so that \<open>DecodeRecord\<close> rejects it, the replay applies the first
  record and the second.
\<close>

theorem crc_failure_counterexample:
  "DecodeRecord (frame put_1 (bad_crc put_1)) = Inl ErrCrcMismatch
   \<and> ReadAll \<lparr>wal_fileId = 0, wal_offset = 0\<rparr>
        (seg_dir (frame put_1 (bad_crc put_1) @ Encode put_2)) [] 0
     = Inr (\<lparr>wal_fileId = 0, wal_offset = 30\<rparr>,
            [([1], \<lparr>FileId = 0, Offset = 0, Length = 15\<rparr>),
             ([2], \<lparr>FileId = 0, Offset = 15, Length = 15\<rparr>)], 0)"
proof -
  have "DecodeRecord (frame put_1 (bad_crc put_1)) = Inl ErrCrcMismatch"
    unfolding frame_eq
    by (subst DecodeRecord_frame)
       (simp_all add: put_1_def bad_crc_def good_crc_def header_def)
  moreover have "ReadAll \<lparr>wal_fileId = 0, wal_offset = 0\<rparr>
        (seg_dir (frame put_1 (bad_crc put_1) @ Encode put_2)) [] 0
     = Inr (\<lparr>wal_fileId = 0, wal_offset = 30\<rparr>,
            [([1], \<lparr>FileId = 0, Offset = 0, Length = 15\<rparr>),
             ([2], \<lparr>FileId = 0, Offset = 15, Length = 15\<rparr>)], 0)"
    using ReadAll_frames
          [of "seg_dir (frame put_1 (bad_crc put_1) @ Encode put_2)"
              "\<lparr>wal_fileId = 0, wal_offset = 0\<rparr>"
              "[(put_1, bad_crc put_1), (put_2, good_crc put_2)]" "[]" "[]" 0]
    by (simp add: seg_dir_def record_in_caps_def put_1_def put_2_def Encode_is_frame
        good_crc_def frame_length_def updatedFunc_def replay0_def BTreeIndex_Put_def
        item_Less_def)
  ultimately show ?thesis by simp
qed

section \<open>Opening an existing directory\<close>

text \<open>
  C3. The claim is that the segments are replayed at every open and that \<open>load_hint\<close>
  only decides whether the hint file is read. In the code \<open>LoadHint()\<close> is called at
  every open and \<open>conf.LoadHint\<close> guards \<open>ReadAll\<close>: on the directory that a put
  leaves behind (no hint file), an open with \<open>LoadHint = false\<close> returns an engine
  with an empty index that does not find the key, where an open with
  \<open>LoadHint = true\<close> finds it; and with \<open>LoadHint = false\<close> the hint file is still
  read.
\<close>

theorem LoadHint_gates_replay:
  "Get (Some [107]) (snd (Put (Some [107]) (Some [118]) (fresh_store cfg False)))
     = Inr (Some [118], True)
   \<and> one_put_dir = dir (snd (Put (Some [107]) (Some [118]) (fresh_store cfg False)))
   \<and> hint_file one_put_dir = None
   \<and> memTable (projr (NewBitcask (cfg\<lparr>LoadHint := False\<rparr>) one_put_dir)) = []
   \<and> Get (Some [107]) (projr (NewBitcask (cfg\<lparr>LoadHint := False\<rparr>) one_put_dir))
       = Inr (None, False)
   \<and> Get (Some [107]) (projr (NewBitcask cfg one_put_dir)) = Inr (Some [118], True)
   \<and> memTable (projr (NewBitcask (cfg\<lparr>LoadHint := False\<rparr>) stale_hint_dir))
       = [([107], \<lparr>FileId = 5, Offset = 0, Length = 15\<rparr>)]"
proof -
  have g0: "Get (Some [107]) (snd (Put (Some [107]) (Some [118]) (fresh_store cfg False)))
     = Inr (Some [118], True)"
  proof -
    have "store_inv (claimed_store [OpPut [107] (Some [118])])
            (snd (run_ops [OpPut [107] (Some [118])] (fresh_store cfg False)))"
      by (rule run_ops_fresh) (simp_all add: cfg_def bytes_of_def)
    from Get_store_inv [OF this, of "[107]"] show ?thesis
      by (simp add: claimed_store_def split: prod.splits)
  qed
  have dec: "DecodeRecord (Encode put_107) = Inr put_107"
    by (subst DecodeRecord_Encode) (simp_all add: put_107_def NewRecord_def newRecord_def)
  have le: "length (Encode put_107) = 15"
    by (simp add: length_Encode put_107_def NewRecord_def newRecord_def)
  have g1: "Get (Some [107]) (projr (NewBitcask cfg one_put_dir)) = Inr (Some [118], True)"
    apply (simp add: NewBitcask_one_put_LoadHint)
    apply (simp add: Get_def is_panic_def wrap_err_def get_def BTreeIndex_Get_def targetWal_def
          ReadPos_def one_put_dir_eq slice_def le dec)
    apply (simp add: put_107_def NewRecord_def newRecord_def)
    done
  show ?thesis
    using g0 g1
    apply (simp add: NewBitcask_one_put_no_LoadHint NewBitcask_stale_hint)
    apply (simp add: Get_def is_panic_def wrap_err_def get_def BTreeIndex_Get_def one_put_dir_def [symmetric])
    apply (simp add: one_put_dir_eq)
    done
qed

text \<open>
  C6. The claim is that a second open of a directory fails while the first engine is
  live. \<open>NewBitcask\<close> makes the lock handle with \<open>flock.New\<close> and never locks it:
  after an open the lock is not held, and a second open of the same directory succeeds.
\<close>

theorem second_open_succeeds:
  "NewBitcask cfg (empty_dir False) = Inr (fresh_store cfg False)
   \<and> \<not> lock_held (dir (fresh_store cfg False))
   \<and> \<not> locked (flock (fresh_store cfg False))
   \<and> NewBitcask cfg (dir (fresh_store cfg False)) = Inr ((fresh_store cfg False)\<lparr>fileIds := [0]\<rparr>)"
proof -
  have r: "ReadAll \<lparr>wal_fileId = 0, wal_offset = 0\<rparr>
             \<lparr>wal_files = [(0, [])], hint_file = None, lock_held = False\<rparr> [] 0
           = Inr (\<lparr>wal_fileId = 0, wal_offset = 0\<rparr>, [], 0)"
    using ReadAll_frames [of "\<lparr>wal_files = [(0, [])], hint_file = None, lock_held = False\<rparr>"
            "\<lparr>wal_fileId = 0, wal_offset = 0\<rparr>" "[]" "[]" "[]" 0]
    by (simp add: replay0_def)
  have l: "LoadHint cfg" by (simp add: cfg_def)
  show ?thesis
    by (simp add: fresh_store_def NewBitcask_empty flock_New_def)
       (simp add: NewBitcask_def Bitcask_LoadHint_def loadWalFiles_def l NewWal_def r
          UpdateOffset_def flock_New_def)
qed

section \<open>A committed transaction across a rotation\<close>

text \<open>
  C2. The claim is that the operations of a committed transaction are applied by the
  replay. \<open>Commit\<close> may rotate before each record, and \<open>ReadAll\<close> keeps the
  transaction state per file: with a rotation threshold of 20 bytes the commit of a
  batch with one put succeeds and writes \<open>TxnBegin\<close> to segment 0 and \<open>TxnPut\<close>,
  \<open>TxnCommit\<close> to segment 1; the key is found before a restart, and an open of the
  directory that the commit leaves (no hint file, as after a crash) replays both
  segments and returns an engine with an empty index.
\<close>

theorem committed_batch_lost_on_reopen:
  "fst (Commit batch1 (fresh_store cfg20 False)) = None
   \<and> committed = snd (snd (Commit batch1 (fresh_store cfg20 False)))
   \<and> Get (Some [107]) committed = Inr (Some [118], True)
   \<and> hint_file (dir committed) = None
   \<and> map fst (wal_files (dir committed)) = [0, 1]
   \<and> memTable (projr (NewBitcask cfg20 (dir committed))) = []
   \<and> Get (Some [107]) (projr (NewBitcask cfg20 (dir committed))) = Inr (None, False)"
proof -
  have dec: "DecodeRecord (Encode txn_put_rec)
               = Inr \<lparr>RecordType = RecordTypeTxnPut, Key = [107], Value = [118]\<rparr>"
    by (subst DecodeRecord_Encode) (simp_all add: rec_defs)
  have le: "length (Encode txn_put_rec) = 19" by (simp add: length_Encode rec_defs)
  have g: "Get (Some [107]) committed = Inr (Some [118], True)"
    by (simp add: committed_eq Get_def is_panic_def wrap_err_def get_def BTreeIndex_Get_def targetWal_def
          ReadPos_def slice_def le dec)
  have g2: "Get (Some [107]) (projr (NewBitcask cfg20 (dir committed))) = Inr (None, False)"
    by (simp add: reopen_committed Get_def is_panic_def wrap_err_def get_def BTreeIndex_Get_def)
  show ?thesis
    using g g2 by (simp add: reopen_committed Commit_cfg20 committed_def [symmetric])
                  (simp add: committed_eq)
qed

section \<open>Range scans\<close>

lemma bytes_Compare_flip: "bytes_Compare a b > 0 \<longleftrightarrow> bytes_Compare b a < 0"
  by (induction a b rule: bytes_Compare.induct) auto

lemma KeyComparator_Less_item: "KeyComparator_Less a b = item_Less a b"
  by (simp add: KeyComparator_Less_def item_Less_def)

lemma scan_less_item: "scan_less a b = item_Less a b"
  by (simp add: scan_less_def item_Less_def)

lemma KeyComparator_Greater_item: "KeyComparator_Greater a b = item_Less b a"
  by (auto simp: KeyComparator_Greater_def item_Less_def bytes_Compare_flip)

lemma KeyComparator_InRange_item:
  "KeyComparator_InRange k s e \<longleftrightarrow> \<not> item_Less k s \<and> \<not> item_Less e k"
  unfolding KeyComparator_InRange_def KeyComparator_GreaterOrEqual_def
    KeyComparator_LessOrEqual_def KeyComparator_Greater_item KeyComparator_Less_item
    KeyComparator_Equal_def
  using item_Less_total item_Less_asym item_Less_irrefl by blast

lemma sort_Slice_sorted:
  "sorted_wrt item_Less ks \<Longrightarrow> sort_Slice ks = ks"
proof (induction ks)
  case Nil
  show ?case by (simp add: sort_Slice_def)
next
  case (Cons k ks)
  then have ih: "foldr sort_insert ks [] = ks" by (simp add: sort_Slice_def)
  show ?case
  proof (cases ks)
    case Nil
    then show ?thesis by (simp add: sort_Slice_def)
  next
    case (Cons x xs)
    with Cons.prems have "item_Less k x" by simp
    then have "\<not> scan_less x k" by (simp add: scan_less_item item_Less_asym)
    with Cons ih show ?thesis by (simp add: sort_Slice_def)
  qed
qed

lemma collectResults_take:
  assumes "0 \<le> count"
  shows "collectResults limit vals ks count =
     (if limit > 0 then take (nat (limit - count)) (map (\<lambda>k. (k, bytes_of (map_of vals k))) ks)
      else map (\<lambda>k. (k, bytes_of (map_of vals k))) ks)"
  using assms
proof (induction ks arbitrary: count)
  case Nil
  show ?case by simp
next
  case (Cons k ks)
  show ?case
  proof (cases "limit > 0 \<and> count \<ge> limit")
    case True
    then show ?thesis by simp
  next
    case False
    have "nat (limit - count) = Suc (nat (limit - (count + 1)))" if "limit > 0"
      using that False by simp
    with False Cons.IH [of "count + 1"] Cons.prems show ?thesis by auto
  qed
qed

lemma fst_entry_value [simp]: "fst (entry_value bc e) = fst e"
  by (cases e) (simp add: entry_value_def)

lemma scan_callback_entry:
  assumes "index_entry_reads bc (k, pos)"
  shows "(case targetWal bc pos of
            Inl e \<Rightarrow> (Some e, acc)
          | Inr w \<Rightarrow>
              (case ReadPos pos w (dir bc) of
                 Inl e \<Rightarrow> (Some (wrap_err ErrScan e), acc)
               | Inr rec \<Rightarrow> fn (Key rec) (Value rec) acc))
         = fn k (snd (entry_value bc (k, pos))) acc"
proof -
  from assms obtain rec where r: "read_entry bc pos = Inr rec" and k: "Key rec = k"
    by (auto simp: index_entry_reads_def split: sum.splits)
  from read_entry_InrD [OF r] obtain w where
    "targetWal bc pos = Inr w" "ReadPos pos w (dir bc) = Inr rec" by blast
  with r k show ?thesis by (simp add: entry_value_def)
qed

lemma map_of_entry_value_None:
  "k \<notin> fst ` set t \<Longrightarrow> map_of (map (entry_value bc) t) k = None"
  by (induction t) (auto simp: entry_value_def split: prod.splits)

lemma foreach_collect:
  assumes "list_all (index_entry_reads bc) t" and "sorted_wrt item_Less (map fst t)"
  shows "\<exists>err vs'.
     ForeachUnSafe
       (\<lambda>key pos acc.
          case targetWal bc pos of
            Inl e \<Rightarrow> (Some e, acc)
          | Inr w \<Rightarrow>
              (case ReadPos pos w (dir bc) of
                 Inl e \<Rightarrow> (Some (wrap_err ErrScan e), acc)
               | Inr rec \<Rightarrow> scanCollect s e (Key rec) (Value rec) acc))
       t (ks, vs)
     = (err, ks @ map fst (filter (\<lambda>x. KeyComparator_InRange (fst x) s e) t), vs')
     \<and> (err = None \<or> err = Some ErrExceedEndRange)
     \<and> (\<forall>k. map_of vs' k =
           (case map_of (map (entry_value bc)
                          (filter (\<lambda>x. KeyComparator_InRange (fst x) s e) t)) k of
              Some v \<Rightarrow> Some v | None \<Rightarrow> map_of vs k))"
  using assms
proof (induction t arbitrary: ks vs)
  case Nil
  show ?case by simp
next
  case (Cons a t)
  obtain k pos where a: "a = (k, pos)" by (cases a)
  let ?F = "\<lambda>t. filter (\<lambda>x. KeyComparator_InRange (fst x) s e) t"
  let ?v = "snd (entry_value bc (k, pos))"
  from Cons.prems a have ra: "index_entry_reads bc (k, pos)"
    and rt: "list_all (index_entry_reads bc) t"
    and st: "sorted_wrt item_Less (map fst t)"
    and lt: "\<forall>x \<in> set t. item_Less k (fst x)" by auto
  note cb = scan_callback_entry [OF ra, of _ "scanCollect s e"]
  have knt: "k \<notin> fst ` set t" using lt by auto
  show ?case
  proof (cases "KeyComparator_InRange k s e")
    case True
    from Cons.IH [OF rt st, of "ks @ [k]" "AList.update k ?v vs"]
    obtain err vs' where
      f: "ForeachUnSafe
       (\<lambda>key pos acc.
          case targetWal bc pos of
            Inl e \<Rightarrow> (Some e, acc)
          | Inr w \<Rightarrow>
              (case ReadPos pos w (dir bc) of
                 Inl e \<Rightarrow> (Some (wrap_err ErrScan e), acc)
               | Inr rec \<Rightarrow> scanCollect s e (Key rec) (Value rec) acc))
       t (ks @ [k], AList.update k ?v vs)
        = (err, (ks @ [k]) @ map fst (?F t), vs')"
      and e: "err = None \<or> err = Some ErrExceedEndRange"
      and m: "\<forall>k'. map_of vs' k' =
           (case map_of (map (entry_value bc) (?F t)) k' of
              Some v \<Rightarrow> Some v | None \<Rightarrow> map_of (AList.update k ?v vs) k')"
      by blast
    have kn: "map_of (map (entry_value bc) (?F t)) k = None"
      using knt by (intro map_of_entry_value_None) auto
    have m': "map_of vs' k' =
           (case map_of (map (entry_value bc) (?F (a # t))) k' of
              Some v \<Rightarrow> Some v | None \<Rightarrow> map_of vs k')" for k'
      using m [rule_format, of k'] True kn
      by (cases "k' = k") (auto simp: a entry_value_def split: option.splits)
    show ?thesis
      using f e m' True by (simp add: a cb scanCollect_def)
  next
    case False
    show ?thesis
    proof (cases "KeyComparator_Greater k e")
      case True
      then have ek: "item_Less e k" by (simp add: KeyComparator_Greater_item)
      have "\<not> KeyComparator_InRange (fst x) s e" if "x \<in> set t" for x
        using lt that ek item_Less_trans [of e k "fst x"]
        by (auto simp: KeyComparator_InRange_item)
      then have "?F t = []" by (simp add: filter_empty_conv)
      with False True show ?thesis by (simp add: a cb scanCollect_def)
    next
      case ng: False
      from Cons.IH [OF rt st, of ks vs] False ng show ?thesis
        by (simp add: a cb scanCollect_def)
    qed
  qed
qed

lemma map_fst_entry_value [simp]: "map (fst \<circ> entry_value bc) t = map fst t"
  by (induction t) simp_all

lemma map_of_entry_value_Some:
  assumes "distinct (map fst t)" and "x \<in> set t"
  shows "map_of (map (entry_value bc) t) (fst x) = Some (snd (entry_value bc x))"
proof -
  have "distinct (map fst (map (entry_value bc) t))" using assms(1) by simp
  moreover have "(fst x, snd (entry_value bc x)) \<in> set (map (entry_value bc) t)"
  proof -
    have "entry_value bc x \<in> set (map (entry_value bc) t)" using assms(2) by simp
    moreover have "entry_value bc x = (fst x, snd (entry_value bc x))"
      by (simp add: prod_eq_iff)
    ultimately show ?thesis by simp
  qed
  ultimately show ?thesis by (rule map_of_is_SomeI)
qed

lemma scan_range_result:
  assumes so: "sorted_wrt item_Less (map fst (memTable bc))"
    and rd: "list_all (index_entry_reads bc) (memTable bc)"
    and mk: "make_results limit heap = None"
  shows "ScanRangeOptimized start end' limit heap bc =
     Inr (if limit > 0 then take (nat limit) (index_range bc (bytes_of start) (bytes_of end'))
          else index_range bc (bytes_of start) (bytes_of end'))"
proof -
  let ?s = "bytes_of start" and ?e = "bytes_of end'"
  let ?F = "filter (\<lambda>x. KeyComparator_InRange (fst x) ?s ?e) (memTable bc)"
  from foreach_collect [OF rd so, of ?s ?e "[]" "[]"] obtain err vs' where
    f: "Scan (scanCollect ?s ?e) bc ([], []) = (err, map fst ?F, vs')"
    and e: "err = None \<or> err = Some ErrExceedEndRange"
    and m0: "\<forall>k. map_of vs' k =
           (case map_of (map (entry_value bc) ?F) k of
              Some v \<Rightarrow> Some v | None \<Rightarrow> map_of [] k)"
    unfolding Scan_def append_Nil by blast
  have m: "map_of vs' k =
           (case map_of (map (entry_value bc) ?F) k of Some v \<Rightarrow> Some v | None \<Rightarrow> None)"
    for k using m0 [rule_format, of k] by (simp split: option.splits)
  have sF: "sorted_wrt item_Less (map fst ?F)"
    using so by (induction "memTable bc") (auto simp: sorted_wrt_map intro: sorted_wrt_filter)
  have dF: "distinct (map fst ?F)" using sF by (rule sorted_distinct_keys)
  have srt: "sort_Slice (map fst ?F) = map fst ?F" using sF by (rule sort_Slice_sorted)
  have vals: "map (\<lambda>k. (k, bytes_of (map_of vs' k))) (map fst ?F) = map (entry_value bc) ?F"
  proof -
    have "(fst x, bytes_of (map_of vs' (fst x))) = entry_value bc x" if "x \<in> set ?F" for x
      using m [of "fst x"] map_of_entry_value_Some [OF dF that, of bc]
      by (simp add: bytes_of_def prod_eq_iff)
    then show ?thesis by (simp add: comp_def)
  qed
  have res: "collectResults limit vs' (sort_Slice (map fst ?F)) 0 =
     (if limit > 0 then take (nat limit) (map (entry_value bc) ?F)
      else map (entry_value bc) ?F)"
  proof -
    have "collectResults limit vs' (map fst ?F) 0 =
      (if limit > 0
       then take (nat (limit - 0)) (map (\<lambda>k. (k, bytes_of (map_of vs' k))) (map fst ?F))
       else map (\<lambda>k. (k, bytes_of (map_of vs' k))) (map fst ?F))"
      by (rule collectResults_take) simp
    then show ?thesis unfolding srt vals by simp
  qed
  show ?thesis
    using mk e f res by (auto simp: ScanRangeOptimized_def index_range_def)
qed

lemma index_range_sorted:
  assumes "sorted_wrt item_Less (map fst (memTable bc))"
  shows "sorted_wrt KeyComparator_Less (map fst (index_range bc s e))"
proof -
  have "sorted_wrt item_Less
          (map fst (filter (\<lambda>x. KeyComparator_InRange (fst x) s e) (memTable bc)))"
    using assms by (induction "memTable bc") (auto simp: sorted_wrt_map intro: sorted_wrt_filter)
  moreover have "KeyComparator_Less = item_Less"
    by (intro ext) (rule KeyComparator_Less_item)
  ultimately show ?thesis by (simp add: index_range_def)
qed

lemma index_range_keys:
  "set (map fst (index_range bc s e)) =
     {k \<in> set (map fst (memTable bc)). KeyComparator_InRange k s e}"
  by (auto simp: index_range_def)

lemma index_range_values:
  assumes so: "sorted_wrt item_Less (map fst (memTable bc))"
    and rd: "list_all (index_entry_reads bc) (memTable bc)"
    and x: "x \<in> set (index_range bc s e)"
  shows "get (Some (fst x)) bc = Inr (snd x) \<or> get (Some (fst x)) bc = Inl ErrKeyHasDeleted"
proof -
  from x obtain k pos where kp: "(k, pos) \<in> set (memTable bc)"
    and xe: "x = entry_value bc (k, pos)"
    by (auto simp: index_range_def)
  from so have "distinct (map fst (memTable bc))" by (rule sorted_distinct_keys)
  with kp have mo: "map_of (memTable bc) k = Some pos" by simp
  from rd kp have "index_entry_reads bc (k, pos)" by (simp add: list_all_iff)
  then obtain rec where r: "read_entry bc pos = Inr rec"
    by (cases "read_entry bc pos") (simp_all add: index_entry_reads_def)
  from get_read_entry [OF mo r] xe r show ?thesis by (simp add: entry_value_def)
qed

lemma scanned_inv: "store_inv (claimed_store scan_ops) scanned"
  unfolding scanned_def
  by (rule run_ops_fresh) (simp_all add: scan_ops_def cfg_def bytes_of_def)

lemma scanned_memTable:
  "memTable scanned =
     [([1], \<lparr>FileId = 0, Offset = 15, Length = 15\<rparr>),
      ([4], \<lparr>FileId = 0, Offset = 30, Length = 14\<rparr>),
      ([9], \<lparr>FileId = 0, Offset = 0, Length = 15\<rparr>)]"
  by (simp add: scanned_def scan_ops_def fresh_store_def NewBitcask_empty cfg_def put_defs
        NewRecord_def newRecord_def item_Less_def)

lemma scanned_values:
  "map (entry_value scanned) (memTable scanned) = [([1], [10]), ([4], []), ([9], [90])]"
proof -
  have "entry_value scanned (k, pos) = (k, bytes_of v)"
    if "(k, pos) \<in> set (memTable scanned)" "claimed_store scan_ops k = Some v" for k pos v
    using store_inv_entries [OF scanned_inv that(1)] that(2)
    by (auto simp: entry_value_def NewRecord_def newRecord_def bytes_of_def split: option.splits)
  from this [of "[1]" _ "Some [10]"] this [of "[4]" _ None] this [of "[9]" _ "Some [90]"]
  show ?thesis
    by (simp add: scanned_memTable claimed_store_def scan_ops_def bytes_of_def)
qed

lemma scanned_reads: "list_all (index_entry_reads scanned) (memTable scanned)"
proof -
  have "index_entry_reads scanned e" if "e \<in> set (memTable scanned)" for e
  proof -
    obtain k pos where e: "e = (k, pos)" by (cases e)
    from store_inv_entries [OF scanned_inv] that e show ?thesis
      by (fastforce simp: index_entry_reads_def NewRecord_def newRecord_def
            split: option.splits)
  qed
  then show ?thesis by (simp add: list_all_iff)
qed

lemma scanned_range:
  "index_range scanned [1] [9] = [([1], [10]), ([4], []), ([9], [90])]"
  using scanned_values
  by (simp add: index_range_def scanned_memTable KeyComparator_InRange_def
        KeyComparator_GreaterOrEqual_def KeyComparator_LessOrEqual_def KeyComparator_Greater_def
        KeyComparator_Less_def KeyComparator_Equal_def)

text \<open>
  C9. The claim is that a range scan returns exactly the live keys of the range with
  their current values. \<open>Scan\<close> passes the key and value of the record of every index
  entry to its callback and, unlike \<open>get\<close>, does not test the record for
  \<open>RecordTypeDelete\<close>: after the puts of \<open>[9]\<close> and \<open>[1]\<close> with values and a put of
  \<open>[4]\<close> with a \<open>nil\<close> value on a fresh engine, the lookups find \<open>[1]\<close> and \<open>[9]\<close>
  and report \<open>[4]\<close> as not found (\<open>get\<close> returns \<open>ErrKeyHasDeleted\<close>), and the scan
  of the range from \<open>[1]\<close> to \<open>[9]\<close> returns \<open>[4]\<close> with an empty value between the
  two live keys.
\<close>

theorem scan_returns_deleted_key:
  "scanned = snd (run_ops [OpPut [9] (Some [90]), OpPut [1] (Some [10]), OpPut [4] None]
                   (fresh_store cfg False))
   \<and> Get (Some [1]) scanned = Inr (Some [10], True)
   \<and> Get (Some [9]) scanned = Inr (Some [90], True)
   \<and> get (Some [4]) scanned = Inl ErrKeyHasDeleted
   \<and> Get (Some [4]) scanned = Inr (None, False)
   \<and> ScanRange (Some [1]) (Some [9]) heap scanned = Inr [([1], [10]), ([4], []), ([9], [90])]
   \<and> ScanRangeLimit (Some [1]) (Some [9]) 2 2 scanned = Inr [([1], [10]), ([4], [])]"
proof -
  have so: "sorted_wrt item_Less (map fst (memTable scanned))"
    using scanned_inv by (simp add: store_inv_def)
  have m0: "make_results 0 heap = None" and m2: "make_results 2 2 = None"
    by (simp_all add: make_results_def)
  from scan_range_result [OF so scanned_reads m0, of "Some [1]" "Some [9]"]
       scan_range_result [OF so scanned_reads m2, of "Some [1]" "Some [9]"]
       get_store_inv [OF scanned_inv, of "[4]"]
       Get_store_inv [OF scanned_inv, of "[1]"] Get_store_inv [OF scanned_inv, of "[4]"]
       Get_store_inv [OF scanned_inv, of "[9]"]
  have rest: "Get (Some [1]) scanned = Inr (Some [10], True)
   \<and> Get (Some [9]) scanned = Inr (Some [90], True)
   \<and> get (Some [4]) scanned = Inl ErrKeyHasDeleted
   \<and> Get (Some [4]) scanned = Inr (None, False)
   \<and> ScanRange (Some [1]) (Some [9]) heap scanned = Inr [([1], [10]), ([4], []), ([9], [90])]
   \<and> ScanRangeLimit (Some [1]) (Some [9]) 2 2 scanned = Inr [([1], [10]), ([4], [])]"
    by (simp add: bytes_of_def scanned_range claimed_store_def scan_ops_def ScanRange_def
          ScanRangeLimit_def)
  have "scanned = snd (run_ops [OpPut [9] (Some [90]), OpPut [1] (Some [10]), OpPut [4] None]
                   (fresh_store cfg False))"
    by (simp only: scanned_def scan_ops_def)
  with rest show ?thesis by blast
qed

section \<open>The index invariant under puts, deletes and batch commits\<close>

































end
